theory Spec2Isabelle
  imports Complex_Main
begin

text \<open>
  A model of the class \<^verbatim>\<open>EventService\<close> (\<^verbatim>\<open>features/sse/services/event-service.ts\<close>), the
  registry of server-sent-event connections: every method is a function from the state of
  the service to a result and the next state. A method that can throw returns a sum, a
  caught exception is a branch. The platform under the class (streams, the clock, random
  numbers, the interval timer) is part of the state: the clock and the random numbers are
  sequences of readings, so that nothing is assumed about the time that passes between two
  calls of \<^verbatim>\<open>Date.now()\<close>.
\<close>

section \<open>Data model\<close>

text \<open>
  The types of \<^verbatim>\<open>features/sse/types/index.ts\<close>. An optional field \<^verbatim>\<open>f?: T\<close> is a
  \<open>T option\<close>; a \<^verbatim>\<open>Record<string, string>\<close> is an association list; a \<^verbatim>\<open>number\<close> that
  holds a timestamp or a duration in milliseconds is an \<open>int\<close>. A client's
  \<^verbatim>\<open>controller\<close> is a reference to a stream object: here the address of the stream in
  the store \<open>streams\<close> of the service state. The field \<^verbatim>\<open>id\<close> of a client is \<open>cid\<close>, the
  field \<^verbatim>\<open>id\<close> of an event is \<open>eid\<close>.
\<close>

record SSEClient =
  cid :: string
  userId :: "string option"
  sessionId :: "string option"
  controller :: nat
  connectedAt :: int
  lastPing :: int
  metadata :: "(string \<times> string) list option"

text \<open>
  A JavaScript \<^verbatim>\<open>number\<close> where the code prints it or tests it for truth. \<open>Integer i\<close> is
  the integer \<open>i\<close>; it is a number of the language, and printed by its decimal digits,
  when \<open>i\<close> is a safe integer (of magnitude at most \<open>2\<^sup>5\<^sup>3 - 1\<close>), as every time value
  is. \<open>NaN\<close> and the two infinities are themselves. \<open>Other t\<close> is any other finite number
  (a fraction, or a number of greater magnitude), given by the text \<open>t\<close> that the language
  prints for it, such as \<^verbatim>\<open>1.5\<close> or \<^verbatim>\<open>1e+21\<close>. Zero of either sign is \<open>Integer 0\<close>.
\<close>

datatype number = Integer int | NaN | PosInfinity | NegInfinity | Other string

text \<open>
  The payload \<^verbatim>\<open>data: T\<close> of an event is a string, a JSON value, or a value that
  \<^verbatim>\<open>JSON.stringify\<close> has no text for (\<^verbatim>\<open>undefined\<close>, a function or a symbol, for which it
  returns \<^verbatim>\<open>undefined\<close>, and a cyclic object or a BigInt, for which it throws).
\<close>

datatype json =
  JNull | JBool bool | JNum number | JStr string | JArr "json list" | JObj "(string \<times> json) list"

datatype payload = PString string | PJson json | PUnserialisable

record SSEEvent =
  event :: string
  data :: payload
  eid :: "string option"
  retry :: "number option"

record ClientFilter =
  f_userId :: "string option"
  f_sessionId :: "string option"
  f_clientIds :: "string list option"
  f_metadata :: "(string \<times> string) list option"

record SSEConfig =
  pingIntervalOpt :: "int option"
  clientTimeoutOpt :: "int option"
  maxClientsOpt :: "int option"
  enableLoggingOpt :: "bool option"

text \<open>\<^verbatim>\<open>Required<SSEConfig>\<close>: the configuration after the constructor's defaults.\<close>

record RequiredConfig =
  cfg_pingInterval :: int
  clientTimeout :: int
  maxClients :: int
  enableLogging :: bool

record SSEStats =
  stat_totalClients :: nat
  stat_clientsByUser :: "(string \<times> nat) list"
  stat_averageConnectionDuration :: rat
  stat_totalEventsSent :: nat
  stat_lastEventTime :: "int option"

text \<open>The options object of \<^verbatim>\<open>createConnection\<close>.\<close>

record ConnectionOptions =
  o_userId :: "string option"
  o_sessionId :: "string option"
  o_metadata :: "(string \<times> string) list option"

text \<open>The \<^verbatim>\<open>Response\<close> returned by \<^verbatim>\<open>createConnection\<close>: its body stream and its headers.\<close>

record Response =
  body :: nat
  headers :: "(string \<times> string) list"

datatype error = Error string

section \<open>The platform: streams, clock, random numbers, timers\<close>

text \<open>
  A \<^verbatim>\<open>ReadableStream\<close> as its \<^verbatim>\<open>ReadableStreamDefaultController\<close> sees it (WHATWG
  Streams). \<^verbatim>\<open>enqueue\<close> and \<^verbatim>\<open>close\<close> both start with the same check,
  ReadableStreamDefaultControllerCanCloseOrEnqueue: the stream is in state "readable" and
  no close has been requested; otherwise each throws a TypeError. \<open>Readable\<close> is the state
  in which the check holds, \<open>Closed\<close> every state in which it fails: the controller has
  called \<^verbatim>\<open>close\<close>, or the consumer has cancelled the stream (the stream is closed
  \<^emph>\<open>before\<close> the underlying source's \<^verbatim>\<open>cancel\<close> callback runs). The service never calls
  \<^verbatim>\<open>controller.error\<close>, so the state "errored" does not occur. With the default queuing
  strategy \<^verbatim>\<open>enqueue\<close> on a readable stream never throws. \<open>chunks\<close> are the chunks the
  stream has accepted, oldest first; \<open>cancelClientId\<close> is the \<^verbatim>\<open>clientId\<close> that the
  closure of the \<^verbatim>\<open>cancel\<close> callback has captured. \<^verbatim>\<open>TextEncoder.encode\<close> is the identity
  on strings of bytes.
\<close>

datatype stream_state = Readable | Closed

record stream =
  streamState :: stream_state
  chunks :: "string list"
  cancelClientId :: string

definition controller_enqueue :: "nat \<Rightarrow> string \<Rightarrow> stream list \<Rightarrow> stream list option" where
  "controller_enqueue a chunk ss =
     (if a < length ss \<and> streamState (ss ! a) = Readable
      then Some (ss[a := (ss ! a)\<lparr>chunks := chunks (ss ! a) @ [chunk]\<rparr>])
      else None)"

definition controller_close :: "nat \<Rightarrow> stream list \<Rightarrow> stream list option" where
  "controller_close a ss =
     (if a < length ss \<and> streamState (ss ! a) = Readable
      then Some (ss[a := (ss ! a)\<lparr>streamState := Closed\<rparr>])
      else None)"

text \<open>
  The state of one \<^verbatim>\<open>EventService\<close> and of the platform under it. \<open>clients\<close> is the
  \<^verbatim>\<open>Map<string, SSEClient>\<close> in insertion order; \<open>pingInterval\<close> the handle that
  \<^verbatim>\<open>setInterval\<close> returned and \<open>timers\<close> the interval timers that are still armed;
  \<open>dateNow n\<close> is what the \<open>n\<close>-th call of \<^verbatim>\<open>Date.now()\<close> returns, \<open>mathRandom n\<close> the
  text \<^verbatim>\<open>Math.random().toString(36)\<close> of the \<open>n\<close>-th random number after its \<^verbatim>\<open>0.\<close>
\<close>

record EventService =
  clients :: "(string \<times> SSEClient) list"
  pingInterval :: "nat option"
  totalEventsSent :: nat
  lastEventTime :: "int option"
  config :: RequiredConfig
  streams :: "stream list"
  timers :: "nat list"
  dateNow :: "nat \<Rightarrow> int"
  dateReads :: nat
  mathRandom :: "nat \<Rightarrow> string"
  randomReads :: nat

definition Date_now :: "EventService \<Rightarrow> int \<times> EventService" where
  "Date_now s = (dateNow s (dateReads s), s\<lparr>dateReads := Suc (dateReads s)\<rparr>)"

definition Math_random :: "EventService \<Rightarrow> string \<times> EventService" where
  "Math_random s = (mathRandom s (randomReads s), s\<lparr>randomReads := Suc (randomReads s)\<rparr>)"

text \<open>The operations of a JavaScript \<^verbatim>\<open>Map\<close>: \<^verbatim>\<open>get\<close> is \<open>map_of\<close>.\<close>

fun Map_set :: "'k \<Rightarrow> 'v \<Rightarrow> ('k \<times> 'v) list \<Rightarrow> ('k \<times> 'v) list" where
  "Map_set k v [] = [(k, v)]"
| "Map_set k v (p # ps) = (if fst p = k then (k, v) # ps else p # Map_set k v ps)"

definition Map_delete :: "'k \<Rightarrow> ('k \<times> 'v) list \<Rightarrow> ('k \<times> 'v) list" where
  "Map_delete k ps = filter (\<lambda>p. fst p \<noteq> k) ps"

section \<open>Strings\<close>

abbreviation LF :: char where
  "LF \<equiv> CHR 0x0A"

text \<open>\<^verbatim>\<open>xs.join(sep)\<close> and \<^verbatim>\<open>s.split("\n")\<close>.\<close>

fun join :: "'a list \<Rightarrow> 'a list list \<Rightarrow> 'a list" where
  "join sep [] = []"
| "join sep [x] = x"
| "join sep (x # y # ys) = x @ sep @ join sep (y # ys)"

fun split :: "char \<Rightarrow> string \<Rightarrow> string list" where
  "split sep [] = [[]]"
| "split sep (c # cs) =
     (if c = sep then [] # split sep cs
      else (case split sep cs of [] \<Rightarrow> [[c]] | l # ls \<Rightarrow> (c # l) # ls))"

text \<open>The decimal digits of an integer.\<close>

fun digits :: "nat \<Rightarrow> string" where
  "digits n =
     (if n < 10 then [''0123456789'' ! n]
      else digits (n div 10) @ [''0123456789'' ! (n mod 10)])"

declare digits.simps [simp del]

definition decimal :: "int \<Rightarrow> string" where
  "decimal i = (if i < 0 then ''-'' @ digits (nat (- i)) else digits (nat i))"

text \<open>
  A number in a template literal (\<^verbatim>\<open>Number::toString\<close>), a number in JSON text
  (\<^verbatim>\<open>null\<close> for a number that is not finite), and a number as a condition: zero and
  \<open>NaN\<close> are falsy.
\<close>

definition Number_toString :: "number \<Rightarrow> string" where
  "Number_toString n =
     (case n of Integer i \<Rightarrow> decimal i | NaN \<Rightarrow> ''NaN'' | PosInfinity \<Rightarrow> ''Infinity''
      | NegInfinity \<Rightarrow> ''-Infinity'' | Other t \<Rightarrow> t)"

definition JSON_number :: "number \<Rightarrow> string" where
  "JSON_number n =
     (case n of Integer i \<Rightarrow> decimal i | NaN \<Rightarrow> ''null'' | PosInfinity \<Rightarrow> ''null''
      | NegInfinity \<Rightarrow> ''null'' | Other t \<Rightarrow> t)"

definition truthy :: "number \<Rightarrow> bool" where
  "truthy n = (case n of Integer i \<Rightarrow> i \<noteq> 0 | NaN \<Rightarrow> False | _ \<Rightarrow> True)"

text \<open>
  \<^verbatim>\<open>JSON.stringify\<close> on a JSON value: no white space, the properties of an object in their
  order, a string in double quotes with the quote, the backslash and the control
  characters escaped (so the text of a JSON value has no raw line feed).
\<close>

definition escape_char :: "char \<Rightarrow> string" where
  "escape_char c =
     (if c = CHR 0x22 then [CHR 0x5C, CHR 0x22]
      else if c = CHR 0x5C then [CHR 0x5C, CHR 0x5C]
      else if c = CHR 0x08 then [CHR 0x5C, CHR ''b'']
      else if c = CHR 0x09 then [CHR 0x5C, CHR ''t'']
      else if c = CHR 0x0A then [CHR 0x5C, CHR ''n'']
      else if c = CHR 0x0C then [CHR 0x5C, CHR ''f'']
      else if c = CHR 0x0D then [CHR 0x5C, CHR ''r'']
      else if (of_char c :: nat) < 32
      then [CHR 0x5C, CHR ''u'', CHR ''0'', CHR ''0'',
            ''0123456789abcdef'' ! (of_char c div 16), ''0123456789abcdef'' ! (of_char c mod 16)]
      else [c])"

definition quote :: "string \<Rightarrow> string" where
  "quote s = [CHR 0x22] @ concat (map escape_char s) @ [CHR 0x22]"

fun JSON_stringify :: "json \<Rightarrow> string" where
  "JSON_stringify JNull = ''null''"
| "JSON_stringify (JBool b) = (if b then ''true'' else ''false'')"
| "JSON_stringify (JNum n) = JSON_number n"
| "JSON_stringify (JStr s) = quote s"
| "JSON_stringify (JArr xs) = ''['' @ join '','' (map JSON_stringify xs) @ '']''"
| "JSON_stringify (JObj kvs) =
     ''{'' @ join '','' (map (\<lambda>(k, v). quote k @ '':'' @ JSON_stringify v) kvs) @ ''}''"

section \<open>The event service\<close>

subsection \<open>formatEvent\<close>

text \<open>
  \<^verbatim>\<open>typeof event.data === "string" ? event.data : JSON.stringify(event.data)\<close>, followed by
  \<^verbatim>\<open>.split\<close>: \<open>None\<close> when \<^verbatim>\<open>JSON.stringify\<close> throws, or returns \<^verbatim>\<open>undefined\<close> so that
  \<^verbatim>\<open>data.split\<close> throws.
\<close>

definition serialise :: "payload \<Rightarrow> string option" where
  "serialise d =
     (case d of PString s \<Rightarrow> Some s | PJson j \<Rightarrow> Some (JSON_stringify j) | PUnserialisable \<Rightarrow> None)"

text \<open>
  The three tests \<^verbatim>\<open>if (event.id)\<close>, \<^verbatim>\<open>if (event.event)\<close>, \<^verbatim>\<open>if (event.retry)\<close> are tests
  for a truthy value: a string that is not empty, a number that is neither zero nor
  \<open>NaN\<close>.
\<close>

definition formatEvent :: "SSEEvent \<Rightarrow> string option" where
  "formatEvent e =
     (let m0 = [];
          m1 = (case eid e of Some i \<Rightarrow> if i \<noteq> [] then m0 @ ''id: '' @ i @ [LF] else m0 | None \<Rightarrow> m0);
          m2 = (if event e \<noteq> [] then m1 @ ''event: '' @ event e @ [LF] else m1);
          m3 = (case retry e of
                  Some r \<Rightarrow> if truthy r then m2 @ ''retry: '' @ Number_toString r @ [LF] else m2
                | None \<Rightarrow> m2)
      in case serialise (data e) of
           None \<Rightarrow> None
         | Some d \<Rightarrow>
             Some (m3 @ join [LF] (map (\<lambda>line. ''data: '' @ line) (split LF d)) @ [LF, LF]))"

subsection \<open>disconnectClient and sendToClient\<close>

text \<open>
  \<^verbatim>\<open>disconnectClient\<close>: when \<^verbatim>\<open>controller.close()\<close> throws, the \<^verbatim>\<open>catch\<close> returns false
  and the statement \<^verbatim>\<open>this.clients.delete(clientId)\<close>, which follows the call in the
  \<^verbatim>\<open>try\<close> block, is not reached. With logging enabled the log entry reads the clock
  once (\<^verbatim>\<open>Date.now() - client.connectedAt\<close>); the logger itself is not modelled.
\<close>

definition disconnectClient :: "string \<Rightarrow> EventService \<Rightarrow> bool \<times> EventService" where
  "disconnectClient clientId s =
     (case map_of (clients s) clientId of
        None \<Rightarrow> (False, s)
      | Some client \<Rightarrow>
          (case controller_close (controller client) (streams s) of
             None \<Rightarrow> (False, s)
           | Some ss \<Rightarrow>
               (let s1 = s\<lparr>streams := ss\<rparr>;
                    s2 = s1\<lparr>clients := Map_delete clientId (clients s1)\<rparr>;
                    s3 = (if enableLogging (config s2) then snd (Date_now s2) else s2)
                in (True, s3))))"

text \<open>
  \<^verbatim>\<open>sendToClient\<close>: \<^verbatim>\<open>formatEvent\<close> and \<^verbatim>\<open>enqueue\<close> are both inside the \<^verbatim>\<open>try\<close>; when
  either throws, the \<^verbatim>\<open>catch\<close> calls \<^verbatim>\<open>disconnectClient\<close> and returns false.
\<close>

definition sendToClient :: "string \<Rightarrow> SSEEvent \<Rightarrow> EventService \<Rightarrow> bool \<times> EventService" where
  "sendToClient clientId e s =
     (case map_of (clients s) clientId of
        None \<Rightarrow> (False, s)
      | Some client \<Rightarrow>
          (case formatEvent e of
             None \<Rightarrow> (False, snd (disconnectClient clientId s))
           | Some message \<Rightarrow>
               (case controller_enqueue (controller client) message (streams s) of
                  None \<Rightarrow> (False, snd (disconnectClient clientId s))
                | Some ss \<Rightarrow>
                    (let s1 = s\<lparr>streams := ss\<rparr>;
                         s2 = s1\<lparr>totalEventsSent := totalEventsSent s1 + 1\<rparr>;
                         (now, s3) = Date_now s2
                     in (True, s3\<lparr>lastEventTime := Some now\<rparr>)))))"

subsection \<open>getClientsByFilter, sendToClients, broadcast, sendToUser\<close>

text \<open>
  The body of the loop of \<^verbatim>\<open>getClientsByFilter\<close>: each \<^verbatim>\<open>continue\<close> is the answer
  \<open>False\<close>. \<^verbatim>\<open>filter.clientIds\<close> and \<^verbatim>\<open>filter.metadata\<close> are truthy when present (an
  array, an object); \<^verbatim>\<open>filter.userId\<close> and \<^verbatim>\<open>filter.sessionId\<close> are truthy when present
  and not the empty string. \<^verbatim>\<open>client.metadata?.[k]\<close> is \<^verbatim>\<open>undefined\<close> when the client has
  no metadata or no key \<open>k\<close>.
\<close>

definition metadata_get :: "SSEClient \<Rightarrow> string \<Rightarrow> string option" where
  "metadata_get client k = (case metadata client of None \<Rightarrow> None | Some m \<Rightarrow> map_of m k)"

definition matchesFilter :: "ClientFilter \<Rightarrow> SSEClient \<Rightarrow> bool" where
  "matchesFilter f client =
     (if (case f_clientIds f of Some ids \<Rightarrow> cid client \<notin> set ids | None \<Rightarrow> False)
      then False
      else if (case f_userId f of Some u \<Rightarrow> u \<noteq> [] \<and> userId client \<noteq> Some u | None \<Rightarrow> False)
      then False
      else if (case f_sessionId f of Some x \<Rightarrow> x \<noteq> [] \<and> sessionId client \<noteq> Some x | None \<Rightarrow> False)
      then False
      else if (case f_metadata f of
                 Some m \<Rightarrow> \<not> list_all (\<lambda>(k, v). metadata_get client k = Some v) m
               | None \<Rightarrow> False)
      then False
      else True)"

definition getClientsByFilter :: "ClientFilter \<Rightarrow> EventService \<Rightarrow> SSEClient list" where
  "getClientsByFilter f s = filter (matchesFilter f) (map snd (clients s))"

text \<open>
  The \<^verbatim>\<open>reduce\<close> of \<^verbatim>\<open>sendToClients\<close> over the array that \<^verbatim>\<open>getClientsByFilter\<close> returned.
\<close>

fun sendEach :: "SSEClient list \<Rightarrow> SSEEvent \<Rightarrow> nat \<Rightarrow> EventService \<Rightarrow> nat \<times> EventService" where
  "sendEach [] e count s = (count, s)"
| "sendEach (client # cs) e count s =
     (let (ok, s1) = sendToClient (cid client) e s
      in sendEach cs e (if ok then count + 1 else count) s1)"

definition sendToClients :: "ClientFilter \<Rightarrow> SSEEvent \<Rightarrow> EventService \<Rightarrow> nat \<times> EventService" where
  "sendToClients f e s = sendEach (getClientsByFilter f s) e 0 s"

definition emptyFilter :: ClientFilter where
  "emptyFilter = \<lparr>f_userId = None, f_sessionId = None, f_clientIds = None, f_metadata = None\<rparr>"

definition broadcast :: "SSEEvent \<Rightarrow> EventService \<Rightarrow> nat \<times> EventService" where
  "broadcast e s = sendToClients emptyFilter e s"

definition sendToUser :: "string \<Rightarrow> SSEEvent \<Rightarrow> EventService \<Rightarrow> nat \<times> EventService" where
  "sendToUser u e s = sendToClients (emptyFilter\<lparr>f_userId := Some u\<rparr>) e s"

subsection \<open>createConnection\<close>

definition generateClientId :: "EventService \<Rightarrow> string \<times> EventService" where
  "generateClientId s =
     (let (now, s1) = Date_now s;
          (r, s2) = Math_random s1
      in (''rt_'' @ Number_toString (Integer now) @ ''_'' @ take 9 r, s2))"

definition CapacityExceeded :: error where
  "CapacityExceeded = Error ''Maximum number of clients reached''"

definition connectedEvent :: "string \<Rightarrow> int \<Rightarrow> SSEEvent" where
  "connectedEvent clientId t =
     \<lparr>event = ''connected'',
      data = PJson (JObj [(''clientId'', JStr clientId), (''connectedAt'', JNum (Integer t))]),
      eid = None, retry = None\<rparr>"

definition responseHeaders :: "(string \<times> string) list" where
  "responseHeaders =
     [(''Content-Type'', ''text/event-stream''), (''Cache-Control'', ''no-cache''),
      (''Connection'', ''keep-alive''), (''Access-Control-Allow-Origin'', ''*'')]"

text \<open>
  \<^verbatim>\<open>createConnection\<close>: the capacity test comes first and throws before anything else
  happens. \<^verbatim>\<open>new ReadableStream\<close> allocates a stream and runs the \<^verbatim>\<open>start\<close> callback at
  once: the client is stored under its id and the event \<^verbatim>\<open>connected\<close> is sent to it.
\<close>

definition createConnection ::
  "ConnectionOptions \<Rightarrow> EventService \<Rightarrow> (error + Response) \<times> EventService" where
  "createConnection options s =
     (if int (length (clients s)) \<ge> maxClients (config s) then (Inl CapacityExceeded, s)
      else
        (let (clientId, s1) = generateClientId s;
             a = length (streams s1);
             s2 = s1\<lparr>streams := streams s1 @
                    [\<lparr>streamState = Readable, chunks = [], cancelClientId = clientId\<rparr>]\<rparr>;
             (t1, s3) = Date_now s2;
             (t2, s4) = Date_now s3;
             client = \<lparr>cid = clientId, userId = o_userId options, sessionId = o_sessionId options,
                       controller = a, connectedAt = t1, lastPing = t2,
                       metadata = o_metadata options\<rparr>;
             s5 = s4\<lparr>clients := Map_set clientId client (clients s4)\<rparr>;
             s6 = snd (sendToClient clientId (connectedEvent clientId (connectedAt client)) s5)
         in (Inr \<lparr>body = a, headers = responseHeaders\<rparr>, s6)))"

text \<open>
  The consumer cancels the body stream at address \<open>a\<close> (the browser went away): the
  platform closes the stream and then runs the \<^verbatim>\<open>cancel\<close> callback, which calls
  \<^verbatim>\<open>disconnectClient\<close>. Cancelling a stream that is closed already does nothing.
\<close>

definition stream_cancel :: "nat \<Rightarrow> EventService \<Rightarrow> EventService" where
  "stream_cancel a s =
     (if a < length (streams s) \<and> streamState (streams s ! a) = Readable
      then snd (disconnectClient (cancelClientId (streams s ! a))
                  (s\<lparr>streams := (streams s)[a := (streams s ! a)\<lparr>streamState := Closed\<rparr>]\<rparr>))
      else s)"

subsection \<open>The heartbeat\<close>

definition heartbeat :: "int \<Rightarrow> SSEEvent" where
  "heartbeat now =
     \<lparr>event = ''ping'', data = PJson (JObj [(''timestamp'', JNum (Integer now))]), eid = None, retry = None\<rparr>"

definition setLastPing :: "string \<Rightarrow> int \<Rightarrow> (string \<times> SSEClient) list \<Rightarrow> (string \<times> SSEClient) list" where
  "setLastPing k now cs = map (\<lambda>(k', c). if k' = k then (k', c\<lparr>lastPing := now\<rparr>) else (k', c)) cs"

text \<open>
  The body of the loop in the interval callback, for the client with id \<open>k\<close>:
  \<^verbatim>\<open>if (this.sendToClient(client.id, heartbeat)) client.lastPing = now\<close>. The client object
  is the one the map holds under its id, so the assignment updates that entry.
\<close>

definition pingClient :: "int \<Rightarrow> string \<Rightarrow> EventService \<Rightarrow> EventService" where
  "pingClient now k s =
     (let (ok, s1) = sendToClient k (heartbeat now) s
      in if ok then s1\<lparr>clients := setLastPing k now (clients s1)\<rparr> else s1)"

text \<open>
  \<^verbatim>\<open>cleanupStaleClients\<close>. The loops over the map are folds over the entries the map has
  when the loop starts: a step removes at most the entry it is visiting.
\<close>

definition sweepClient :: "int \<Rightarrow> string \<times> SSEClient \<Rightarrow> EventService \<Rightarrow> EventService" where
  "sweepClient now entry s =
     (if now - lastPing (snd entry) > clientTimeout (config s)
      then snd (disconnectClient (fst entry) s) else s)"

definition cleanupStaleClients :: "EventService \<Rightarrow> EventService" where
  "cleanupStaleClients s = (let (now, s1) = Date_now s in fold (sweepClient now) (clients s1) s1)"

text \<open>The callback that \<^verbatim>\<open>startPingInterval\<close> hands to \<^verbatim>\<open>setInterval\<close>.\<close>

definition pingTick :: "EventService \<Rightarrow> EventService" where
  "pingTick s =
     (let (now, s1) = Date_now s;
          s2 = fold (pingClient now) (map (\<lambda>entry. cid (snd entry)) (clients s1)) s1
      in cleanupStaleClients s2)"

text \<open>The platform runs the callback only while the timer is armed.\<close>

definition intervalElapsed :: "EventService \<Rightarrow> EventService" where
  "intervalElapsed s =
     (case pingInterval s of
        None \<Rightarrow> s
      | Some h \<Rightarrow> if h \<in> set (timers s) then pingTick s else s)"

subsection \<open>Construction, teardown, statistics\<close>

definition resolveConfig :: "SSEConfig \<Rightarrow> RequiredConfig" where
  "resolveConfig c =
     \<lparr>cfg_pingInterval = (case pingIntervalOpt c of Some x \<Rightarrow> x | None \<Rightarrow> 45000),
      clientTimeout = (case clientTimeoutOpt c of Some x \<Rightarrow> x | None \<Rightarrow> 90000),
      maxClients = (case maxClientsOpt c of Some x \<Rightarrow> x | None \<Rightarrow> 1000),
      enableLogging = (case enableLoggingOpt c of Some x \<Rightarrow> x | None \<Rightarrow> True)\<rparr>"

text \<open>The constructor, on a platform with the given clock and random numbers.\<close>

definition newEventService :: "SSEConfig \<Rightarrow> (nat \<Rightarrow> int) \<Rightarrow> (nat \<Rightarrow> string) \<Rightarrow> EventService" where
  "newEventService c clock rnd =
     \<lparr>clients = [], pingInterval = Some 0, totalEventsSent = 0, lastEventTime = None,
      config = resolveConfig c, streams = [], timers = [0],
      dateNow = clock, dateReads = 0, mathRandom = rnd, randomReads = 0\<rparr>"

definition destroy :: "EventService \<Rightarrow> EventService" where
  "destroy s =
     (let s1 = (case pingInterval s of Some h \<Rightarrow> s\<lparr>timers := removeAll h (timers s)\<rparr> | None \<Rightarrow> s);
          s2 = fold (\<lambda>clientId t. snd (disconnectClient clientId t)) (map fst (clients s1)) s1
      in s2\<lparr>clients := []\<rparr>)"

text \<open>
  The body of the loop of \<^verbatim>\<open>getStats\<close> that counts the clients of a user. The table
  \<^verbatim>\<open>clientsByUser\<close> is an object literal in the code; it is a table from strings to counts
  here, which is what the code computes for every userId that is not the name of a
  property the object inherits (\<^verbatim>\<open>constructor\<close>, \<^verbatim>\<open>toString\<close>, \<^verbatim>\<open>__proto__\<close> and the like): on
  those names the lookup of the code finds the inherited value, and they are outside
  this model. The average duration is the exact quotient; the code returns the double
  nearest to it. No statement below is about either.
\<close>

definition countUser :: "SSEClient \<Rightarrow> (string \<times> nat) list \<Rightarrow> (string \<times> nat) list" where
  "countUser client byUser =
     (case userId client of
        None \<Rightarrow> byUser
      | Some u \<Rightarrow>
          if u \<noteq> [] then Map_set u ((case map_of byUser u of Some n \<Rightarrow> n | None \<Rightarrow> 0) + 1) byUser
          else byUser)"

definition getStats :: "EventService \<Rightarrow> SSEStats \<times> EventService" where
  "getStats s =
     (let (now, s1) = Date_now s;
          clientsByUser = fold countUser (map snd (clients s1)) [];
          totalConnectionDuration = (\<Sum>client \<leftarrow> map snd (clients s1). now - connectedAt client)
      in (\<lparr>stat_totalClients = length (clients s1),
           stat_clientsByUser = clientsByUser,
           stat_averageConnectionDuration =
             (if length (clients s1) > 0
              then of_int totalConnectionDuration / of_nat (length (clients s1)) else 0),
           stat_totalEventsSent = totalEventsSent s1,
           stat_lastEventTime = lastEventTime s1\<rparr>, s1))"

section \<open>Notions used by the statements\<close>

text \<open>
  The frame as the specification words it: the lines of the frame in order, an
  \<^verbatim>\<open>id:\<close> line, an \<^verbatim>\<open>event:\<close> line, a \<^verbatim>\<open>retry:\<close> line, one \<^verbatim>\<open>data:\<close> line for each segment
  of the payload text \<open>d\<close>; a field has a line when its value is truthy. Every line ends
  with a line feed and a blank line ends the frame.
\<close>

definition frameLines :: "SSEEvent \<Rightarrow> string \<Rightarrow> string list" where
  "frameLines e d =
     (case eid e of Some i \<Rightarrow> if i = [] then [] else [''id: '' @ i] | None \<Rightarrow> []) @
     (if event e = [] then [] else [''event: '' @ event e]) @
     (case retry e of
        Some r \<Rightarrow> if truthy r then [''retry: '' @ Number_toString r] else []
      | None \<Rightarrow> []) @
     map (\<lambda>seg. ''data: '' @ seg) (split LF d)"

definition frameOfLines :: "string list \<Rightarrow> string" where
  "frameOfLines ls = concat (map (\<lambda>l. l @ [LF]) ls) @ [LF]"

text \<open>The stream of a client accepts a write (and a close).\<close>

definition writable :: "EventService \<Rightarrow> SSEClient \<Rightarrow> bool" where
  "writable s client \<longleftrightarrow>
     controller client < length (streams s) \<and> streamState (streams s ! controller client) = Readable"

text \<open>
  What the code keeps true of the registry: the keys of the map are distinct, every
  client is stored under its own id, and every client has a stream of its own in the
  store.
\<close>

definition registryOk :: "EventService \<Rightarrow> bool" where
  "registryOk s \<longleftrightarrow>
     distinct (map fst (clients s)) \<and>
     list_all (\<lambda>entry. cid (snd entry) = fst entry \<and> controller (snd entry) < length (streams s))
       (clients s) \<and>
     distinct (map (\<lambda>entry. controller (snd entry)) (clients s))"

text \<open>A run of registrations, one after the other: the results and the last state.\<close>

fun createConnections ::
  "ConnectionOptions list \<Rightarrow> EventService \<Rightarrow> (error + Response) list \<times> EventService" where
  "createConnections [] s = ([], s)"
| "createConnections (options # rest) s =
     (let (r, s1) = createConnection options s;
          (rs, s2) = createConnections rest s1
      in (r # rs, s2))"

subsection \<open>A small engine to run the definitions on\<close>

text \<open>
  An engine for at most two clients, without logging, on a platform whose clock starts at
  1000 and advances by 10 with every reading.
\<close>

definition demoConfig :: SSEConfig where
  "demoConfig =
     \<lparr>pingIntervalOpt = Some 100, clientTimeoutOpt = Some 200, maxClientsOpt = Some 2,
      enableLoggingOpt = Some False\<rparr>"

definition demoClock :: "nat \<Rightarrow> int" where
  "demoClock n = 1000 + 10 * int n"

definition demoRandom :: "nat \<Rightarrow> string" where
  "demoRandom n = ''r'' @ digits n"

definition demoOptions :: "string \<Rightarrow> ConnectionOptions" where
  "demoOptions u = \<lparr>o_userId = Some u, o_sessionId = None, o_metadata = None\<rparr>"

definition demoEvent :: SSEEvent where
  "demoEvent = \<lparr>event = ''note'', data = PString ''hi'', eid = None, retry = None\<rparr>"

definition demo0 :: EventService where
  "demo0 = newEventService demoConfig demoClock demoRandom"

text \<open>One client of user alice; then a second client, of user bob.\<close>

definition demo1 :: EventService where
  "demo1 = snd (createConnection (demoOptions ''alice'') demo0)"

definition demo2 :: EventService where
  "demo2 = snd (createConnection (demoOptions ''bob'') demo1)"

text \<open>The consumer of alice's stream has gone away.\<close>

definition demoGone :: EventService where
  "demoGone = stream_cancel 0 demo1"

text \<open>The same engine much later: the clock stands at 2000.\<close>

definition demoLate :: EventService where
  "demoLate = demoGone\<lparr>dateReads := 100\<rparr>"

text \<open>The frame of the event \<^verbatim>\<open>connected\<close> for the client \<open>k\<close> connected at time \<open>t\<close>.\<close>

definition connectedFrame :: "string \<Rightarrow> int \<Rightarrow> string" where
  "connectedFrame k t =
     ''event: connected'' @ [LF] @ ''data: {'' @ quote ''clientId'' @ '':'' @ quote k @ '','' @
     quote ''connectedAt'' @ '':'' @ decimal t @ ''}'' @ [LF, LF]"

text \<open>
  The id that \<^verbatim>\<open>generateClientId\<close> hands out next, and the client that \<^verbatim>\<open>createConnection\<close>
  builds with it: four readings of the clock are taken, for the id, for \<open>connectedAt\<close>,
  for \<open>lastPing\<close> and for the delivery of the event \<^verbatim>\<open>connected\<close>.
\<close>

definition newClientId :: "EventService \<Rightarrow> string" where
  "newClientId s =
     ''rt_'' @ decimal (dateNow s (dateReads s)) @ ''_'' @ take 9 (mathRandom s (randomReads s))"

definition newClient :: "ConnectionOptions \<Rightarrow> EventService \<Rightarrow> SSEClient" where
  "newClient options s =
     \<lparr>cid = newClientId s, userId = o_userId options, sessionId = o_sessionId options,
      controller = length (streams s), connectedAt = dateNow s (dateReads s + 1),
      lastPing = dateNow s (dateReads s + 2), metadata = o_metadata options\<rparr>"

text \<open>
  The id \<open>k\<close> is registered and the stream of its client accepts a write: a ping sent to
  \<open>k\<close> will be delivered.
\<close>

definition deliverable :: "EventService \<Rightarrow> string \<Rightarrow> bool" where
  "deliverable s k = (case map_of (clients s) k of None \<Rightarrow> False | Some c \<Rightarrow> writable s c)"

text \<open>The loop of \<^verbatim>\<open>destroy\<close> over the keys of the map.\<close>

abbreviation disconnectAll :: "string list \<Rightarrow> EventService \<Rightarrow> EventService" where
  "disconnectAll ks s \<equiv> fold (\<lambda>clientId t. snd (disconnectClient clientId t)) ks s"

text \<open>The frame of \<open>demoEvent\<close>.\<close>

definition demoFrame :: string where
  "demoFrame = ''event: note'' @ [LF] @ ''data: hi'' @ [LF, LF]"

text \<open>
  The states an engine can be in: it is constructed, and then the operations of the class
  and the events of the platform (the consumer cancels a stream, the interval elapses,
  other code reads the clock while time passes) take it from state to state.
\<close>

inductive reachable :: "EventService \<Rightarrow> bool" where
  constructed: "reachable (newEventService c clock rnd)"
| connected: "reachable s \<Longrightarrow> reachable (snd (createConnection options s))"
| cancelled: "reachable s \<Longrightarrow> reachable (stream_cancel a s)"
| sent: "reachable s \<Longrightarrow> reachable (snd (sendToClient k e s))"
| sentMany: "reachable s \<Longrightarrow> reachable (snd (sendToClients f e s))"
| disconnected: "reachable s \<Longrightarrow> reachable (snd (disconnectClient k s))"
| ticked: "reachable s \<Longrightarrow> reachable (intervalElapsed s)"
| queried: "reachable s \<Longrightarrow> reachable (snd (getStats s))"
| destroyed: "reachable s \<Longrightarrow> reachable (destroy s)"
| clockRead: "reachable s \<Longrightarrow> reachable (snd (Date_now s))"

text \<open>
  The events on which the model prints and tests every number as the code does: an
  \<open>Integer\<close> in the retry interval or in the payload is a safe integer, and the text of an
  \<open>Other\<close> is not the text of zero, of \<open>NaN\<close> or of an infinity.
\<close>

definition safeInteger :: "int \<Rightarrow> bool" where
  "safeInteger i \<longleftrightarrow> \<bar>i\<bar> \<le> 9007199254740991"

definition numberOk :: "number \<Rightarrow> bool" where
  "numberOk n =
     (case n of
        Integer i \<Rightarrow> safeInteger i
      | Other t \<Rightarrow> t \<notin> set [''0'', ''NaN'', ''Infinity'', ''-Infinity'']
      | _ \<Rightarrow> True)"

fun jsonOk :: "json \<Rightarrow> bool" where
  "jsonOk (JNum n) = numberOk n"
| "jsonOk (JArr xs) = list_all jsonOk xs"
| "jsonOk (JObj kvs) = list_all (\<lambda>(k, v). jsonOk v) kvs"
| "jsonOk _ = True"

definition eventOk :: "SSEEvent \<Rightarrow> bool" where
  "eventOk e \<longleftrightarrow>
     (case retry e of Some r \<Rightarrow> numberOk r | None \<Rightarrow> True) \<and>
     (case data e of PJson j \<Rightarrow> jsonOk j | _ \<Rightarrow> True)"

section \<open>Lines and frames\<close>

lemma split_nonempty: "split sep d \<noteq> []"
  by (induction d) (auto split: list.splits)

lemma join_split: "join [sep] (split sep d) = d"
proof (induction d)
  case Nil
  show ?case by simp
next
  case (Cons c d)
  obtain l ls where sp: "split sep d = l # ls"
    using split_nonempty [of sep d] by (cases "split sep d") auto
  show ?case
  proof (cases "c = sep")
    case True
    with Cons sp show ?thesis by simp
  next
    case False
    with Cons sp show ?thesis by (cases ls) auto
  qed
qed

lemma split_segments: "seg \<in> set (split sep d) \<Longrightarrow> sep \<notin> set seg"
  by (induction d arbitrary: seg) (auto split: list.splits if_splits)

lemma length_split: "length (split sep d) = Suc (count_list d sep)"
  by (induction d) (auto split: list.splits simp: split_nonempty)

lemma join_lines: "ls \<noteq> [] \<Longrightarrow> join [LF] ls @ [LF, LF] = frameOfLines ls"
  by (induction "[LF]" ls rule: join.induct) (auto simp: frameOfLines_def)

lemma frameOfLines_append:
  "frameOfLines (xs @ ys) = concat (map (\<lambda>l. l @ [LF]) xs) @ frameOfLines ys"
  by (simp add: frameOfLines_def)

lemma dataLines_frame:
  "join [LF] (map (\<lambda>line. ''data: '' @ line) (split LF d)) @ [LF, LF] =
   frameOfLines (map (\<lambda>seg. ''data: '' @ seg) (split LF d))"
  by (rule join_lines) (simp add: split_nonempty)

lemma formatEvent_frameLines:
  "formatEvent e = map_option (\<lambda>d. frameOfLines (frameLines e d)) (serialise (data e))"
proof (cases "serialise (data e)")
  case None
  then show ?thesis by (simp add: formatEvent_def Let_def)
next
  case (Some d)
  then show ?thesis
    by (simp add: formatEvent_def frameLines_def frameOfLines_append dataLines_frame Let_def
             split: option.splits)
qed

text \<open>
  C8 (as amended). For an event whose numbers are numbers of the language (\<open>eventOk\<close>),
  \<^verbatim>\<open>formatEvent\<close> is a function of the event: the frame is the lines \<open>frameLines\<close> in their
  order (\<^verbatim>\<open>id:\<close> and the id, copied as it is, when the id is a non-empty string; \<^verbatim>\<open>event:\<close>
  and the type label, copied as it is, when the label is non-empty; \<^verbatim>\<open>retry:\<close> and the
  interval as the language prints it when the interval is present and truthy, that is
  neither zero nor \<open>NaN\<close>; then one \<^verbatim>\<open>data:\<close> line for each segment of the payload text),
  every line ended by a line feed, and a blank line at the end. The payload text is the
  string itself for a string payload and the JSON text for a JSON value; there is no
  frame (the function throws) when the payload has no JSON text. The segments are the
  pieces of the text between its line feeds: joined by line feeds they give the text
  back, none holds a line feed, and there is one more of them than there are line feeds.
\<close>

theorem formatEvent_frame:
  assumes "eventOk e"
  shows "formatEvent e = map_option (\<lambda>d. frameOfLines (frameLines e d)) (serialise (data e)) \<and>
         serialise (data e) =
           (case data e of PString t \<Rightarrow> Some t | PJson j \<Rightarrow> Some (JSON_stringify j)
            | PUnserialisable \<Rightarrow> None) \<and>
         (\<forall>r. truthy r \<longleftrightarrow> r \<noteq> Integer 0 \<and> r \<noteq> NaN) \<and>
         join [LF] (split LF d) = d \<and>
         (\<forall>seg \<in> set (split LF d). LF \<notin> set seg) \<and>
         length (split LF d) = Suc (count_list d LF)"
proof -
  have t: "truthy r \<longleftrightarrow> r \<noteq> Integer 0 \<and> r \<noteq> NaN" for r
    by (cases r) (simp_all add: truthy_def)
  from formatEvent_frameLines [of e] join_split [of LF d] split_segments [of _ LF d]
    length_split [of LF d] t
  show ?thesis by (auto simp: serialise_def)
qed

theorem formatEvent_frame_witness:
  "eventOk \<lparr>event = ''note'', data = PString (''a'' @ [LF] @ ''b''), eid = Some ''7'',
            retry = Some (Integer 3000)\<rparr> \<and>
   formatEvent \<lparr>event = ''note'', data = PString (''a'' @ [LF] @ ''b''), eid = Some ''7'',
                retry = Some (Integer 3000)\<rparr> =
     Some (''id: 7'' @ [LF] @ ''event: note'' @ [LF] @ ''retry: 3000'' @ [LF] @
           ''data: a'' @ [LF] @ ''data: b'' @ [LF] @ [LF]) \<and>
   split LF (''a'' @ [LF] @ ''b'') = [''a'', ''b''] \<and>
   eventOk \<lparr>event = ''note'', data = PJson (JObj [(''n'', JNum (Integer 5)), (''x'', JNum NaN)]),
            eid = None, retry = Some (Other ''1e+21'')\<rparr> \<and>
   formatEvent \<lparr>event = ''note'', data = PJson (JObj [(''n'', JNum (Integer 5)), (''x'', JNum NaN)]),
                eid = None, retry = Some (Other ''1e+21'')\<rparr> =
     Some (''event: note'' @ [LF] @ ''retry: 1e+21'' @ [LF] @
           ''data: {'' @ quote ''n'' @ '':5,'' @ quote ''x'' @ '':null}'' @ [LF] @ [LF])"
proof -
  let ?e1 = "\<lparr>event = ''note'', data = PString (''a'' @ [LF] @ ''b''), eid = Some ''7'',
              retry = Some (Integer 3000)\<rparr>"
  let ?e2 = "\<lparr>event = ''note'', data = PJson (JObj [(''n'', JNum (Integer 5)), (''x'', JNum NaN)]),
              eid = None, retry = Some (Other ''1e+21'')\<rparr>"
  have ok1: "eventOk ?e1" by (simp add: eventOk_def numberOk_def safeInteger_def)
  have ok2: "eventOk ?e2" by (simp add: eventOk_def numberOk_def safeInteger_def)
  from formatEvent_frame [OF ok1, of "''a'' @ [LF] @ ''b''"]
  have 1: "formatEvent ?e1 =
      Some (''id: 7'' @ [LF] @ ''event: note'' @ [LF] @ ''retry: 3000'' @ [LF] @
            ''data: a'' @ [LF] @ ''data: b'' @ [LF] @ [LF])"
    by (simp add: frameLines_def frameOfLines_def Number_toString_def decimal_def digits.simps
          truthy_def)
  from formatEvent_frame [OF ok2, of "[]"]
  have 2: "formatEvent ?e2 =
      Some (''event: note'' @ [LF] @ ''retry: 1e+21'' @ [LF] @
            ''data: {'' @ quote ''n'' @ '':5,'' @ quote ''x'' @ '':null}'' @ [LF] @ [LF])"
    by (simp add: frameLines_def frameOfLines_def Number_toString_def JSON_number_def decimal_def
          digits.simps truthy_def quote_def escape_char_def)
  from ok1 ok2 1 2 show ?thesis by simp
qed

text \<open>
  C8 as stated fails: an event that has a retry interval, the interval 0, gets no
  \<^verbatim>\<open>retry:\<close> line, and an event whose id is the empty string gets no \<^verbatim>\<open>id:\<close> line; an
  event whose retry interval is \<open>NaN\<close> gets no \<^verbatim>\<open>retry:\<close> line; and for an event whose
  payload has no JSON text there is no frame at all.
\<close>

theorem formatEvent_retry_zero_counterexample:
  "formatEvent \<lparr>event = ''note'', data = PString ''hi'', eid = Some [], retry = Some (Integer 0)\<rparr> =
     Some (''event: note'' @ [LF] @ ''data: hi'' @ [LF] @ [LF]) \<and>
   formatEvent \<lparr>event = ''note'', data = PString ''hi'', eid = None, retry = Some NaN\<rparr> =
     Some (''event: note'' @ [LF] @ ''data: hi'' @ [LF] @ [LF]) \<and>
   formatEvent \<lparr>event = ''note'', data = PUnserialisable, eid = None, retry = None\<rparr> = None"
  by (simp add: formatEvent_def serialise_def truthy_def Let_def)

section \<open>Single deliveries and removals\<close>

lemma controller_close_None:
  "controller_close a ss = None \<longleftrightarrow> \<not> (a < length ss \<and> streamState (ss ! a) = Readable)"
  by (simp add: controller_close_def)

lemma controller_enqueue_None:
  "controller_enqueue a m ss = None \<longleftrightarrow> controller_close a ss = None"
  by (simp add: controller_enqueue_def controller_close_def)

lemma disconnectClient_absent:
  "map_of (clients s) k = None \<Longrightarrow> disconnectClient k s = (False, s)"
  by (simp add: disconnectClient_def)

lemma disconnectClient_closed:
  "map_of (clients s) k = Some c \<Longrightarrow> \<not> writable s c \<Longrightarrow> disconnectClient k s = (False, s)"
  by (auto simp: disconnectClient_def controller_close_def writable_def)

lemma disconnectClient_open:
  assumes "map_of (clients s) k = Some c" and "writable s c"
  shows "disconnectClient k s =
    (True, s\<lparr>clients := Map_delete k (clients s),
             streams := (streams s)[controller c := (streams s ! controller c)\<lparr>streamState := Closed\<rparr>],
             dateReads := (if enableLogging (config s) then Suc (dateReads s) else dateReads s)\<rparr>)"
  using assms by (simp add: disconnectClient_def controller_close_def writable_def Date_now_def Let_def)

lemma sendToClient_absent:
  "map_of (clients s) k = None \<Longrightarrow> sendToClient k e s = (False, s)"
  by (simp add: sendToClient_def)

lemma sendToClient_closed:
  "map_of (clients s) k = Some c \<Longrightarrow> \<not> writable s c \<Longrightarrow> sendToClient k e s = (False, s)"
  by (auto simp: sendToClient_def controller_enqueue_def writable_def disconnectClient_closed
           split: option.splits)

lemma sendToClient_open:
  assumes "map_of (clients s) k = Some c" and "writable s c" and "formatEvent e = Some m"
  shows "sendToClient k e s =
    (True, s\<lparr>streams := (streams s)[controller c :=
                 (streams s ! controller c)\<lparr>chunks := chunks (streams s ! controller c) @ [m]\<rparr>],
             totalEventsSent := totalEventsSent s + 1,
             dateReads := Suc (dateReads s),
             lastEventTime := Some (dateNow s (dateReads s))\<rparr>)"
  using assms by (simp add: sendToClient_def controller_enqueue_def writable_def Date_now_def Let_def)

lemma sendToClient_unformattable:
  "map_of (clients s) k = Some c \<Longrightarrow> formatEvent e = None \<Longrightarrow>
   sendToClient k e s = (False, snd (disconnectClient k s))"
  by (simp add: sendToClient_def)

lemma sendToClient_True:
  assumes "sendToClient k e s = (True, s')"
  obtains c m where "map_of (clients s) k = Some c" and "writable s c" and "formatEvent e = Some m"
proof -
  from assms obtain c where c: "map_of (clients s) k = Some c"
    by (cases "map_of (clients s) k") (auto simp: sendToClient_def)
  from assms c obtain m where m: "formatEvent e = Some m"
    by (cases "formatEvent e") (auto simp: sendToClient_def)
  from assms c have "writable s c"
    using sendToClient_closed [OF c, of e] by auto
  with c m that show thesis by blast
qed

lemma map_of_setLastPing:
  "map_of (setLastPing k now cs) j =
     (if j = k then map_option (\<lambda>c. c\<lparr>lastPing := now\<rparr>) (map_of cs j) else map_of cs j)"
  by (induction cs) (auto simp: setLastPing_def)


subsection \<open>The small engine, evaluated\<close>

lemmas demo_defs =
  newEventService_def createConnection_def demoConfig_def resolveConfig_def
  generateClientId_def Date_now_def Math_random_def demoClock_def demoRandom_def demoOptions_def
  sendToClient_def connectedEvent_def formatEvent_def serialise_def controller_enqueue_def
  Number_toString_def JSON_number_def decimal_def digits.simps quote_def escape_char_def connectedFrame_def Let_def

lemma demo1_eval:
  "demo1 =
     \<lparr>clients = [(''rt_1000_r0'',
         \<lparr>cid = ''rt_1000_r0'', userId = Some ''alice'', sessionId = None, controller = 0,
          connectedAt = 1010, lastPing = 1020, metadata = None\<rparr>)],
      pingInterval = Some 0, totalEventsSent = 1, lastEventTime = Some 1030,
      config = \<lparr>cfg_pingInterval = 100, clientTimeout = 200, maxClients = 2, enableLogging = False\<rparr>,
      streams = [\<lparr>streamState = Readable, chunks = [connectedFrame ''rt_1000_r0'' 1010],
                  cancelClientId = ''rt_1000_r0''\<rparr>],
      timers = [0], dateNow = demoClock, dateReads = 4, mathRandom = demoRandom, randomReads = 1\<rparr>"
  by (simp add: demo1_def demo0_def demo_defs)

lemma demo2_eval:
  "demo2 =
     \<lparr>clients = [(''rt_1000_r0'',
         \<lparr>cid = ''rt_1000_r0'', userId = Some ''alice'', sessionId = None, controller = 0,
          connectedAt = 1010, lastPing = 1020, metadata = None\<rparr>),
        (''rt_1040_r1'',
         \<lparr>cid = ''rt_1040_r1'', userId = Some ''bob'', sessionId = None, controller = 1,
          connectedAt = 1050, lastPing = 1060, metadata = None\<rparr>)],
      pingInterval = Some 0, totalEventsSent = 2, lastEventTime = Some 1070,
      config = \<lparr>cfg_pingInterval = 100, clientTimeout = 200, maxClients = 2, enableLogging = False\<rparr>,
      streams = [\<lparr>streamState = Readable, chunks = [connectedFrame ''rt_1000_r0'' 1010],
                  cancelClientId = ''rt_1000_r0''\<rparr>,
                 \<lparr>streamState = Readable, chunks = [connectedFrame ''rt_1040_r1'' 1050],
                  cancelClientId = ''rt_1040_r1''\<rparr>],
      timers = [0], dateNow = demoClock, dateReads = 8, mathRandom = demoRandom, randomReads = 2\<rparr>"
  by (simp add: demo2_def demo1_eval demo_defs)

lemma demoGone_eval:
  "demoGone =
     \<lparr>clients = [(''rt_1000_r0'',
         \<lparr>cid = ''rt_1000_r0'', userId = Some ''alice'', sessionId = None, controller = 0,
          connectedAt = 1010, lastPing = 1020, metadata = None\<rparr>)],
      pingInterval = Some 0, totalEventsSent = 1, lastEventTime = Some 1030,
      config = \<lparr>cfg_pingInterval = 100, clientTimeout = 200, maxClients = 2, enableLogging = False\<rparr>,
      streams = [\<lparr>streamState = Closed, chunks = [connectedFrame ''rt_1000_r0'' 1010],
                  cancelClientId = ''rt_1000_r0''\<rparr>],
      timers = [0], dateNow = demoClock, dateReads = 4, mathRandom = demoRandom, randomReads = 1\<rparr>"
  by (simp add: demoGone_def demo1_eval stream_cancel_def disconnectClient_def controller_close_def)

lemma formatEvent_demoEvent: "formatEvent demoEvent = Some (''event: note'' @ [LF] @ ''data: hi'' @ [LF, LF])"
  by (simp add: demoEvent_def formatEvent_def serialise_def Let_def)

lemma demo1_client:
  "map_of (clients demo1) ''rt_1000_r0'' =
     Some \<lparr>cid = ''rt_1000_r0'', userId = Some ''alice'', sessionId = None, controller = 0,
           connectedAt = 1010, lastPing = 1020, metadata = None\<rparr>"
  by (simp add: demo1_eval)




lemma matchesFilter_empty: "matchesFilter emptyFilter c"
  by (simp add: matchesFilter_def emptyFilter_def)

text \<open>
  C4 (what the code does). Whenever the write of a formatted event to the stream of a
  registered client fails, \<^verbatim>\<open>sendToClient\<close> returns false and leaves the whole state as
  it was: the client stays in the registry, and the query with the empty filter still
  returns it. The stream refuses the \<^verbatim>\<open>close\<close> of \<^verbatim>\<open>disconnectClient\<close> for the reason it
  refused the write, and the \<^verbatim>\<open>catch\<close> skips the removal.
\<close>

theorem failed_write_keeps_client:
  assumes "map_of (clients s) k = Some c"
    and "formatEvent e = Some m"
    and "controller_enqueue (controller c) m (streams s) = None"
  shows "sendToClient k e s = (False, s) \<and> c \<in> set (getClientsByFilter emptyFilter s)"
proof -
  from assms(3) have "\<not> writable s c"
    by (auto simp: controller_enqueue_def writable_def split: if_splits)
  with assms(1) have "sendToClient k e s = (False, s)" by (rule sendToClient_closed)
  moreover from assms(1) have "(k, c) \<in> set (clients s)" by (rule map_of_SomeD)
  then have "c \<in> set (getClientsByFilter emptyFilter s)"
    by (force simp: getClientsByFilter_def matchesFilter_empty)
  ultimately show ?thesis by simp
qed

lemma demoGone_client:
  "map_of (clients demoGone) ''rt_1000_r0'' =
     Some \<lparr>cid = ''rt_1000_r0'', userId = Some ''alice'', sessionId = None, controller = 0,
           connectedAt = 1010, lastPing = 1020, metadata = None\<rparr>"
  by (simp add: demoGone_eval)

theorem failed_write_keeps_client_witness:
  "sendToClient ''rt_1000_r0'' demoEvent demoGone = (False, demoGone) \<and>
   map cid (getClientsByFilter emptyFilter demoGone) = [''rt_1000_r0''] \<and>
   streamState (streams demoGone ! 0) = Closed"
proof -
  have "controller_enqueue 0 (''event: note'' @ [LF] @ ''data: hi'' @ [LF, LF]) (streams demoGone) = None"
    by (simp add: controller_enqueue_def demoGone_eval)
  with failed_write_keeps_client [OF demoGone_client formatEvent_demoEvent]
  show ?thesis by (simp add: getClientsByFilter_def demoGone_eval matchesFilter_empty)
qed

lemma map_of_Map_delete: "map_of (Map_delete k cs) j = (if j = k then None else map_of cs j)"
  by (induction cs) (auto simp: Map_delete_def)

text \<open>
  C5 (what the code does). \<^verbatim>\<open>disconnectClient\<close> is a total function (it never throws).
  On an id that is not registered it returns false and changes nothing. On a registered
  id whose stream is open it returns true; the next state is the state with the stream
  of that client closed and the entry of that id, and of no other id, removed (and one
  reading of the clock taken when logging is enabled); a second call on the same id
  returns false and changes nothing. On a registered id whose stream is closed already
  (the consumer has cancelled it) it returns false and changes nothing: the client stays
  registered, and a second call does the same. No call touches a stream that is closed
  already.
\<close>

theorem disconnectClient_behaviour:
  "(map_of (clients s) k = None \<longrightarrow> disconnectClient k s = (False, s)) \<and>
   (map_of (clients s) k = Some c \<and> writable s c \<longrightarrow>
      disconnectClient k s =
        (True, s\<lparr>clients := Map_delete k (clients s),
                 streams := (streams s)[controller c := (streams s ! controller c)\<lparr>streamState := Closed\<rparr>],
                 dateReads := (if enableLogging (config s) then Suc (dateReads s) else dateReads s)\<rparr>) \<and>
      (\<forall>i. map_of (Map_delete k (clients s)) i = (if i = k then None else map_of (clients s) i)) \<and>
      disconnectClient k (snd (disconnectClient k s)) = (False, snd (disconnectClient k s))) \<and>
   (map_of (clients s) k = Some c \<and> \<not> writable s c \<longrightarrow>
      disconnectClient k s = (False, s) \<and>
      disconnectClient k (snd (disconnectClient k s)) = (False, s) \<and>
      map_of (clients (snd (disconnectClient k s))) k = Some c) \<and>
   (\<forall>a < length (streams s). streamState (streams s ! a) = Closed \<longrightarrow>
      streams (snd (disconnectClient j s)) ! a = streams s ! a)"
proof (intro conjI impI allI)
  assume "map_of (clients s) k = None"
  then show "disconnectClient k s = (False, s)" by (rule disconnectClient_absent)
next
  assume a: "map_of (clients s) k = Some c \<and> writable s c"
  then show eq: "disconnectClient k s =
    (True, s\<lparr>clients := Map_delete k (clients s),
             streams := (streams s)[controller c := (streams s ! controller c)\<lparr>streamState := Closed\<rparr>],
             dateReads := (if enableLogging (config s) then Suc (dateReads s) else dateReads s)\<rparr>)"
    using disconnectClient_open by blast
  have gone: "map_of (clients (snd (disconnectClient k s))) k = None"
    by (simp add: eq map_of_Map_delete)
  show "disconnectClient k (snd (disconnectClient k s)) = (False, snd (disconnectClient k s))"
    using gone by (rule disconnectClient_absent)
next
  fix i
  show "map_of (Map_delete k (clients s)) i = (if i = k then None else map_of (clients s) i)"
    by (rule map_of_Map_delete)
next
  assume a: "map_of (clients s) k = Some c \<and> \<not> writable s c"
  then have eq: "disconnectClient k s = (False, s)"
    using disconnectClient_closed by blast
  then show "disconnectClient k s = (False, s)" .
  from eq show "disconnectClient k (snd (disconnectClient k s)) = (False, s)" by simp
  from eq a show "map_of (clients (snd (disconnectClient k s))) k = Some c" by simp
next
  fix a
  assume a: "a < length (streams s)" "streamState (streams s ! a) = Closed"
  show "streams (snd (disconnectClient j s)) ! a = streams s ! a"
  proof (cases "map_of (clients s) j")
    case None
    then show ?thesis by (simp add: disconnectClient_absent)
  next
    case (Some d)
    show ?thesis
    proof (cases "writable s d")
      case True
      with a have "controller d \<noteq> a" by (auto simp: writable_def)
      with disconnectClient_open [OF Some True] show ?thesis by simp
    next
      case False
      with Some show ?thesis by (simp add: disconnectClient_closed)
    qed
  qed
qed

theorem disconnectClient_behaviour_witness:
  "map_of (clients demo1) ''nobody'' = None \<and>
   disconnectClient ''nobody'' demo1 = (False, demo1) \<and>
   map_option cid (map_of (clients demo1) ''rt_1000_r0'') = Some ''rt_1000_r0'' \<and>
   map streamState (streams demo1) = [Readable] \<and>
   fst (disconnectClient ''rt_1000_r0'' demo1) \<and>
   clients (snd (disconnectClient ''rt_1000_r0'' demo1)) = [] \<and>
   map streamState (streams (snd (disconnectClient ''rt_1000_r0'' demo1))) = [Closed] \<and>
   fst (disconnectClient ''rt_1000_r0'' (snd (disconnectClient ''rt_1000_r0'' demo1))) = False \<and>
   map_option cid (map_of (clients demoGone) ''rt_1000_r0'') = Some ''rt_1000_r0'' \<and>
   map streamState (streams demoGone) = [Closed] \<and>
   disconnectClient ''rt_1000_r0'' demoGone = (False, demoGone) \<and>
   disconnectClient ''rt_1000_r0'' (snd (disconnectClient ''rt_1000_r0'' demoGone)) = (False, demoGone) \<and>
   map fst (clients (snd (disconnectClient ''rt_1000_r0'' demoGone))) = [''rt_1000_r0'']"
proof -
  let ?alice = "\<lparr>cid = ''rt_1000_r0'', userId = Some ''alice'', sessionId = None, controller = 0,
           connectedAt = 1010, lastPing = 1020, metadata = None\<rparr>"
  have w: "writable demo1 ?alice" by (simp add: writable_def demo1_eval)
  have nw: "\<not> writable demoGone ?alice" by (simp add: writable_def demoGone_eval)
  have n: "map_of (clients demo1) ''nobody'' = None" by (simp add: demo1_eval)
  from disconnectClient_behaviour [where s = demo1 and k = "''nobody''"] n
  have 1: "disconnectClient ''nobody'' demo1 = (False, demo1)" by simp
  from disconnectClient_behaviour [where s = demo1 and k = "''rt_1000_r0''" and c = ?alice]
    demo1_client w
  have 2: "disconnectClient ''rt_1000_r0'' demo1 =
        (True, demo1\<lparr>clients := Map_delete ''rt_1000_r0'' (clients demo1),
                 streams := (streams demo1)[controller ?alice :=
                    (streams demo1 ! controller ?alice)\<lparr>streamState := Closed\<rparr>],
                 dateReads := (if enableLogging (config demo1) then Suc (dateReads demo1)
                    else dateReads demo1)\<rparr>)"
    and 3: "disconnectClient ''rt_1000_r0'' (snd (disconnectClient ''rt_1000_r0'' demo1)) =
        (False, snd (disconnectClient ''rt_1000_r0'' demo1))"
    by blast+
  from disconnectClient_behaviour [where s = demoGone and k = "''rt_1000_r0''" and c = ?alice]
    demoGone_client nw
  have 4: "disconnectClient ''rt_1000_r0'' demoGone = (False, demoGone)"
    and 5: "disconnectClient ''rt_1000_r0'' (snd (disconnectClient ''rt_1000_r0'' demoGone)) =
        (False, demoGone)"
    by blast+
  have 6: "clients (snd (disconnectClient ''rt_1000_r0'' demo1)) = []"
    "map streamState (streams (snd (disconnectClient ''rt_1000_r0'' demo1))) = [Closed]"
    by (simp_all add: 2) (simp_all add: demo1_eval Map_delete_def)
  from n 1 2 3 4 5 6 show ?thesis by (simp add: demo1_eval demoGone_eval)
qed

section \<open>Filters\<close>

text \<open>
  C6 (as amended). A client matches a filter iff (the allow-list of ids is absent or the
  client's id is in it) and (the filter's userId is absent, or the empty string, or equal
  to the client's) and (the filter's sessionId is absent, or the empty string, or equal to
  the client's) and (the filter's metadata is absent or every given key is present in the
  client's metadata with an equal value). The empty filter matches every client; a filter
  with metadata only asks for the given keys and nothing else; and \<^verbatim>\<open>getClientsByFilter\<close>
  returns the registered clients that match, in the order of the registry.
\<close>

theorem matchesFilter_iff:
  "(matchesFilter f c \<longleftrightarrow>
      (case f_clientIds f of None \<Rightarrow> True | Some ids \<Rightarrow> cid c \<in> set ids) \<and>
      (case f_userId f of None \<Rightarrow> True | Some u \<Rightarrow> u = [] \<or> userId c = Some u) \<and>
      (case f_sessionId f of None \<Rightarrow> True | Some x \<Rightarrow> x = [] \<or> sessionId c = Some x) \<and>
      (case f_metadata f of None \<Rightarrow> True
       | Some m \<Rightarrow> \<forall>(k, v) \<in> set m. \<exists>cm. metadata c = Some cm \<and> map_of cm k = Some v)) \<and>
   matchesFilter emptyFilter c \<and>
   (matchesFilter (emptyFilter\<lparr>f_metadata := Some m\<rparr>) c \<longleftrightarrow>
      (\<forall>(k, v) \<in> set m. \<exists>cm. metadata c = Some cm \<and> map_of cm k = Some v)) \<and>
   getClientsByFilter f s = filter (matchesFilter f) (map snd (clients s))"
proof -
  have md: "metadata_get c k = Some v \<longleftrightarrow> (\<exists>cm. metadata c = Some cm \<and> map_of cm k = Some v)" for k v
    by (simp add: metadata_get_def split: option.splits)
  have all: "list_all (\<lambda>(k, v). metadata_get c k = Some v) xs \<longleftrightarrow>
      (\<forall>(k, v) \<in> set xs. \<exists>cm. metadata c = Some cm \<and> map_of cm k = Some v)" for xs
    by (simp add: list_all_iff md)
  show ?thesis
    by (simp add: matchesFilter_def emptyFilter_def getClientsByFilter_def all
             split: option.splits)
qed

theorem matchesFilter_iff_witness:
  "matchesFilter (emptyFilter\<lparr>f_metadata := Some [(''role'', ''admin'')]\<rparr>)
     \<lparr>cid = ''c1'', userId = Some ''alice'', sessionId = None, controller = 0, connectedAt = 0,
      lastPing = 0, metadata = Some [(''team'', ''blue''), (''role'', ''admin'')]\<rparr> \<and>
   \<not> matchesFilter (emptyFilter\<lparr>f_metadata := Some [(''role'', ''admin'')]\<rparr>)
     \<lparr>cid = ''c2'', userId = Some ''bob'', sessionId = None, controller = 1, connectedAt = 0,
      lastPing = 0, metadata = Some [(''role'', ''user'')]\<rparr> \<and>
   \<not> matchesFilter (emptyFilter\<lparr>f_userId := Some ''bob'', f_clientIds := Some [''c1'', ''c2'']\<rparr>)
     \<lparr>cid = ''c1'', userId = Some ''alice'', sessionId = None, controller = 0, connectedAt = 0,
      lastPing = 0, metadata = None\<rparr> \<and>
   map cid (getClientsByFilter (emptyFilter\<lparr>f_userId := Some ''bob''\<rparr>) demo2) = [''rt_1040_r1'']"
  using matchesFilter_iff [of "emptyFilter\<lparr>f_metadata := Some [(''role'', ''admin'')]\<rparr>"
      "\<lparr>cid = ''c1'', userId = Some ''alice'', sessionId = None, controller = 0, connectedAt = 0,
      lastPing = 0, metadata = Some [(''team'', ''blue''), (''role'', ''admin'')]\<rparr>" "[]" demo2]
    matchesFilter_iff [of "emptyFilter\<lparr>f_metadata := Some [(''role'', ''admin'')]\<rparr>"
      "\<lparr>cid = ''c2'', userId = Some ''bob'', sessionId = None, controller = 1, connectedAt = 0,
      lastPing = 0, metadata = Some [(''role'', ''user'')]\<rparr>" "[]" demo2]
    matchesFilter_iff [of "emptyFilter\<lparr>f_userId := Some ''bob'', f_clientIds := Some [''c1'', ''c2'']\<rparr>"
      "\<lparr>cid = ''c1'', userId = Some ''alice'', sessionId = None, controller = 0, connectedAt = 0,
      lastPing = 0, metadata = None\<rparr>" "[]" demo2]
    matchesFilter_iff [of "emptyFilter\<lparr>f_userId := Some ''bob''\<rparr>" _ "[]" demo2]
  by (simp add: emptyFilter_def demo2_eval)

text \<open>
  C6 as stated fails: the filter whose userId is present and is the empty string matches
  a client of user alice, and the query with it returns the clients of alice and of bob.
\<close>

theorem matchesFilter_empty_userId_counterexample:
  "matchesFilter (emptyFilter\<lparr>f_userId := Some []\<rparr>)
     \<lparr>cid = ''c1'', userId = Some ''alice'', sessionId = None, controller = 0, connectedAt = 0,
      lastPing = 0, metadata = None\<rparr> \<and>
   map cid (getClientsByFilter (emptyFilter\<lparr>f_userId := Some []\<rparr>) demo2) =
     [''rt_1000_r0'', ''rt_1040_r1'']"
  by (simp add: matchesFilter_def emptyFilter_def getClientsByFilter_def demo2_eval)

section \<open>Registration\<close>

lemma formatEvent_PJson: "data e = PJson j \<Longrightarrow> \<exists>m. formatEvent e = Some m"
  by (simp add: formatEvent_def serialise_def Let_def)

lemma map_of_Map_set: "map_of (Map_set k v cs) j = (if j = k then Some v else map_of cs j)"
  by (induction cs) auto


lemma createConnection_full:
  "maxClients (config s) \<le> int (length (clients s)) \<Longrightarrow>
   createConnection options s = (Inl CapacityExceeded, s)"
  by (simp add: createConnection_def)

lemma createConnection_room:
  assumes "int (length (clients s)) < maxClients (config s)"
  shows "\<exists>m. formatEvent (connectedEvent (newClientId s) (connectedAt (newClient options s))) = Some m \<and>
    createConnection options s =
     (Inr \<lparr>body = length (streams s), headers = responseHeaders\<rparr>,
      s\<lparr>clients := Map_set (newClientId s) (newClient options s) (clients s),
        streams := streams s @ [\<lparr>streamState = Readable, chunks = [m], cancelClientId = newClientId s\<rparr>],
        totalEventsSent := totalEventsSent s + 1,
        lastEventTime := Some (dateNow s (dateReads s + 3)),
        dateReads := dateReads s + 4,
        randomReads := Suc (randomReads s)\<rparr>)"
proof -
  obtain m where m: "formatEvent (connectedEvent (newClientId s) (connectedAt (newClient options s))) = Some m"
    using formatEvent_PJson [of "connectedEvent (newClientId s) (connectedAt (newClient options s))"]
    by (auto simp: connectedEvent_def)
  define s5 where "s5 = s\<lparr>randomReads := Suc (randomReads s),
        streams := streams s @ [\<lparr>streamState = Readable, chunks = [], cancelClientId = newClientId s\<rparr>],
        dateReads := Suc (Suc (Suc (dateReads s))),
        clients := Map_set (newClientId s) (newClient options s) (clients s)\<rparr>"
  have c: "map_of (clients s5) (newClientId s) = Some (newClient options s)"
    by (simp add: s5_def map_of_Map_set)
  have w: "writable s5 (newClient options s)"
    by (simp add: s5_def writable_def newClient_def)
  have cc: "createConnection options s =
     (Inr \<lparr>body = length (streams s), headers = responseHeaders\<rparr>,
      snd (sendToClient (newClientId s) (connectedEvent (newClientId s) (connectedAt (newClient options s))) s5))"
    using assms
    by (simp add: createConnection_def generateClientId_def Date_now_def Math_random_def Let_def
          s5_def newClientId_def newClient_def Number_toString_def)
  show ?thesis
    using m by (simp add: cc sendToClient_open [OF c w m])
      (rule EventService.equality; simp add: s5_def newClient_def eval_nat_numeral)
qed

lemma config_disconnectClient [simp]: "config (snd (disconnectClient k s)) = config s"
  by (simp add: disconnectClient_def Date_now_def Let_def split: option.splits)

lemma createConnection_config [simp]: "config (snd (createConnection options s)) = config s"
proof (cases "int (length (clients s)) < maxClients (config s)")
  case True
  from createConnection_room [OF this, of options] show ?thesis by auto
next
  case False
  then show ?thesis by (simp add: createConnection_full)
qed

lemma createConnection_timer [simp]:
  "pingInterval (snd (createConnection options s)) = pingInterval s \<and>
   timers (snd (createConnection options s)) = timers s"
proof (cases "int (length (clients s)) < maxClients (config s)")
  case True
  from createConnection_room [OF this, of options] show ?thesis by auto
next
  case False
  then show ?thesis by (simp add: createConnection_full)
qed



lemma createConnections_config [simp]: "config (snd (createConnections os s)) = config s"
proof (induction os arbitrary: s)
  case Nil
  show ?case by simp
next
  case (Cons x xs)
  have "config (snd (createConnections xs (snd (createConnection x s)))) = config s"
    by (simp add: Cons.IH)
  then show ?case by (simp add: Let_def case_prod_beta)
qed


lemma length_createConnections [simp]: "length (fst (createConnections os s)) = length os"
  by (induction os arbitrary: s) (simp_all add: Let_def case_prod_beta)







section \<open>What a removal and a delivery leave alone\<close>

lemma disconnectClient_cases:
  obtains (same) "disconnectClient k s = (False, s)"
  | (removed) c where "map_of (clients s) k = Some c" and "writable s c"
      and "disconnectClient k s =
        (True, s\<lparr>clients := Map_delete k (clients s),
                 streams := (streams s)[controller c := (streams s ! controller c)\<lparr>streamState := Closed\<rparr>],
                 dateReads := (if enableLogging (config s) then Suc (dateReads s) else dateReads s)\<rparr>)"
proof (cases "map_of (clients s) k")
  case None
  then show thesis using same disconnectClient_absent by blast
next
  case (Some c)
  show thesis
  proof (cases "writable s c")
    case True
    with Some removed disconnectClient_open show thesis by blast
  next
    case False
    with Some same disconnectClient_closed show thesis by blast
  qed
qed

lemma disconnectClient_frame [simp]:
  "totalEventsSent (snd (disconnectClient k s)) = totalEventsSent s"
  "lastEventTime (snd (disconnectClient k s)) = lastEventTime s"
  "pingInterval (snd (disconnectClient k s)) = pingInterval s"
  "timers (snd (disconnectClient k s)) = timers s"
  "dateNow (snd (disconnectClient k s)) = dateNow s"
  "mathRandom (snd (disconnectClient k s)) = mathRandom s"
  "randomReads (snd (disconnectClient k s)) = randomReads s"
  "length (streams (snd (disconnectClient k s))) = length (streams s)"
  by (cases k s rule: disconnectClient_cases; simp)+

lemma disconnectClient_other:
  "j \<noteq> k \<Longrightarrow> map_of (clients (snd (disconnectClient k s))) j = map_of (clients s) j"
  by (cases k s rule: disconnectClient_cases) (simp_all add: map_of_Map_delete)

lemma disconnectClient_not_writable:
  "\<not> writable s c \<Longrightarrow> \<not> writable (snd (disconnectClient k s)) c"
  by (cases k s rule: disconnectClient_cases) (auto simp: writable_def nth_list_update)

lemma disconnectClient_keeps_closed:
  assumes "map_of (clients s) k = Some c" and "\<not> writable s c"
  shows "map_of (clients (snd (disconnectClient j s))) k = Some c \<and>
         \<not> writable (snd (disconnectClient j s)) c"
proof (cases "j = k")
  case True
  with assms show ?thesis by (simp add: disconnectClient_closed)
next
  case False
  with assms show ?thesis by (simp add: disconnectClient_other disconnectClient_not_writable)
qed

lemma sendToClient_cases:
  obtains (same) "sendToClient k e s = (False, s)"
  | (dropped) "sendToClient k e s = (False, snd (disconnectClient k s))"
  | (sent) c m where "map_of (clients s) k = Some c" and "writable s c" and "formatEvent e = Some m"
      and "sendToClient k e s =
        (True, s\<lparr>streams := (streams s)[controller c :=
                     (streams s ! controller c)\<lparr>chunks := chunks (streams s ! controller c) @ [m]\<rparr>],
                 totalEventsSent := totalEventsSent s + 1,
                 dateReads := Suc (dateReads s),
                 lastEventTime := Some (dateNow s (dateReads s))\<rparr>)"
proof (cases "map_of (clients s) k")
  case None
  then show thesis using same sendToClient_absent by blast
next
  case (Some c)
  show thesis
  proof (cases "formatEvent e")
    case None
    with Some dropped sendToClient_unformattable show thesis by blast
  next
    case m: (Some m)
    show thesis
    proof (cases "writable s c")
      case True
      from sent [OF Some True m sendToClient_open [OF Some True m]] show thesis .
    next
      case False
      with Some same sendToClient_closed show thesis by blast
    qed
  qed
qed

lemma sendToClient_keeps_closed:
  assumes "map_of (clients s) k = Some c" and "\<not> writable s c"
  shows "map_of (clients (snd (sendToClient j e s))) k = Some c \<and>
         \<not> writable (snd (sendToClient j e s)) c"
proof (cases j e s rule: sendToClient_cases)
  case same
  with assms show ?thesis by simp
next
  case dropped
  with disconnectClient_keeps_closed [OF assms, of j] show ?thesis by simp
next
  case (sent d m)
  with assms show ?thesis by (auto simp: writable_def nth_list_update)
qed

lemma pingClient_keeps_closed:
  assumes "map_of (clients s) k = Some c" and "\<not> writable s c"
  shows "map_of (clients (pingClient now j s)) k = Some c \<and> \<not> writable (pingClient now j s) c"
proof (cases "fst (sendToClient j (heartbeat now) s)")
  case False
  with sendToClient_keeps_closed [OF assms, of j "heartbeat now"] show ?thesis
    by (simp add: pingClient_def case_prod_beta)
next
  case True
  then obtain s1 where s1: "sendToClient j (heartbeat now) s = (True, s1)"
    by (cases "sendToClient j (heartbeat now) s") auto
  then obtain d m where d: "map_of (clients s) j = Some d" "writable s d"
    by (rule sendToClient_True)
  with assms have "j \<noteq> k" by auto
  with sendToClient_keeps_closed [OF assms, of j "heartbeat now"] s1 show ?thesis
    by (simp add: pingClient_def map_of_setLastPing writable_def)
qed

lemma fold_pingClient_keeps_closed:
  "map_of (clients s) k = Some c \<Longrightarrow> \<not> writable s c \<Longrightarrow>
   map_of (clients (fold (pingClient now) ks s)) k = Some c \<and>
   \<not> writable (fold (pingClient now) ks s) c"
proof (induction ks arbitrary: s)
  case Nil
  then show ?case by simp
next
  case (Cons j ks)
  from pingClient_keeps_closed [OF Cons.prems, of now j] Cons.IH [of "pingClient now j s"]
  show ?case by simp
qed

lemma sweepClient_keeps_closed:
  "map_of (clients s) k = Some c \<Longrightarrow> \<not> writable s c \<Longrightarrow>
   map_of (clients (sweepClient now entry s)) k = Some c \<and> \<not> writable (sweepClient now entry s) c"
  using disconnectClient_keeps_closed [of s k c "fst entry"] by (simp add: sweepClient_def)

lemma fold_sweepClient_keeps_closed:
  "map_of (clients s) k = Some c \<Longrightarrow> \<not> writable s c \<Longrightarrow>
   map_of (clients (fold (sweepClient now) es s)) k = Some c \<and>
   \<not> writable (fold (sweepClient now) es s) c"
proof (induction es arbitrary: s)
  case Nil
  then show ?case by simp
next
  case (Cons entry es)
  from sweepClient_keeps_closed [OF Cons.prems, of now entry] Cons.IH [of "sweepClient now entry s"]
  show ?case by simp
qed

lemma cleanupStaleClients_keeps_closed:
  assumes "map_of (clients s) k = Some c" and "\<not> writable s c"
  shows "map_of (clients (cleanupStaleClients s)) k = Some c \<and> \<not> writable (cleanupStaleClients s) c"
proof -
  let ?s1 = "s\<lparr>dateReads := Suc (dateReads s)\<rparr>"
  from assms have "map_of (clients ?s1) k = Some c" "\<not> writable ?s1 c"
    by (simp_all add: writable_def)
  from fold_sweepClient_keeps_closed [OF this] show ?thesis
    by (simp add: cleanupStaleClients_def Date_now_def)
qed

section \<open>The heartbeat\<close>

text \<open>
  C9 (what the code does). A registered client whose stream is closed stays registered
  through the sweep and through the whole tick (pings, then sweep), however old its
  \<open>lastPing\<close> is: the ping to it fails, and the sweep's \<^verbatim>\<open>disconnectClient\<close> fails on the
  \<^verbatim>\<open>close\<close> of the stream and never reaches the removal.
\<close>

theorem stale_closed_client_survives:
  assumes "map_of (clients s) k = Some c" and "\<not> writable s c"
  shows "map_of (clients (cleanupStaleClients s)) k = Some c \<and> map_of (clients (pingTick s)) k = Some c"
proof -
  let ?s1 = "s\<lparr>dateReads := Suc (dateReads s)\<rparr>"
  from assms have "map_of (clients ?s1) k = Some c" "\<not> writable ?s1 c"
    by (simp_all add: writable_def)
  from fold_pingClient_keeps_closed [OF this]
  have "map_of (clients (fold (pingClient (dateNow s (dateReads s)))
            (map (\<lambda>entry. cid (snd entry)) (clients s)) ?s1)) k = Some c \<and>
        \<not> writable (fold (pingClient (dateNow s (dateReads s)))
            (map (\<lambda>entry. cid (snd entry)) (clients s)) ?s1) c"
    by blast
  then have "map_of (clients (pingTick s)) k = Some c"
    using cleanupStaleClients_keeps_closed by (simp add: pingTick_def Date_now_def)
  with cleanupStaleClients_keeps_closed [OF assms] show ?thesis by simp
qed

lemma formatEvent_heartbeat: "\<exists>m. formatEvent (heartbeat now) = Some m"
  by (rule formatEvent_PJson [of _ "JObj [(''timestamp'', JNum (Integer now))]"]) (simp add: heartbeat_def)

lemma streamState_enqueued [simp]:
  "streamState (ss[b := (ss ! b)\<lparr>chunks := x\<rparr>] ! a) = streamState (ss ! a)"
  by (cases "b < length ss") (simp_all add: nth_list_update list_update_beyond)

lemma pingClient_deliverable:
  assumes "deliverable s j"
  obtains c m where "map_of (clients s) j = Some c" and "writable s c"
    and "formatEvent (heartbeat now) = Some m"
    and "pingClient now j s =
      s\<lparr>streams := (streams s)[controller c :=
                     (streams s ! controller c)\<lparr>chunks := chunks (streams s ! controller c) @ [m]\<rparr>],
        totalEventsSent := totalEventsSent s + 1,
        dateReads := Suc (dateReads s),
        lastEventTime := Some (dateNow s (dateReads s)),
        clients := setLastPing j now (clients s)\<rparr>"
proof -
  from assms obtain c where c: "map_of (clients s) j = Some c" "writable s c"
    by (auto simp: deliverable_def split: option.splits)
  obtain m where m: "formatEvent (heartbeat now) = Some m"
    using formatEvent_heartbeat by blast
  from sendToClient_open [OF c m] have "pingClient now j s =
      s\<lparr>streams := (streams s)[controller c :=
                     (streams s ! controller c)\<lparr>chunks := chunks (streams s ! controller c) @ [m]\<rparr>],
        totalEventsSent := totalEventsSent s + 1,
        dateReads := Suc (dateReads s),
        lastEventTime := Some (dateNow s (dateReads s)),
        clients := setLastPing j now (clients s)\<rparr>"
    by (simp add: pingClient_def)
  with c m that show thesis by blast
qed

lemma pingClient_undeliverable:
  assumes "\<not> deliverable s j"
  shows "pingClient now j s = s"
proof (cases "map_of (clients s) j")
  case None
  then show ?thesis by (simp add: pingClient_def sendToClient_absent)
next
  case (Some c)
  with assms have "\<not> writable s c" by (simp add: deliverable_def)
  with Some show ?thesis by (simp add: pingClient_def sendToClient_closed)
qed

lemma deliverable_pingClient: "deliverable (pingClient now j s) i = deliverable s i"
proof (cases "deliverable s j")
  case False
  then show ?thesis by (simp add: pingClient_undeliverable)
next
  case True
  then obtain c m where "map_of (clients s) j = Some c" and "writable s c"
    and "formatEvent (heartbeat now) = Some m" and "pingClient now j s =
      s\<lparr>streams := (streams s)[controller c :=
                     (streams s ! controller c)\<lparr>chunks := chunks (streams s ! controller c) @ [m]\<rparr>],
        totalEventsSent := totalEventsSent s + 1,
        dateReads := Suc (dateReads s),
        lastEventTime := Some (dateNow s (dateReads s)),
        clients := setLastPing j now (clients s)\<rparr>"
    by (rule pingClient_deliverable)
  then show ?thesis
    by (auto simp: deliverable_def map_of_setLastPing writable_def split: option.splits)
qed

lemma fold_pingClient_counts:
  "totalEventsSent (fold (pingClient now) ks s) = totalEventsSent s + length (filter (deliverable s) ks) \<and>
   dateReads (fold (pingClient now) ks s) = dateReads s + length (filter (deliverable s) ks) \<and>
   dateNow (fold (pingClient now) ks s) = dateNow s \<and>
   lastEventTime (fold (pingClient now) ks s) =
     (if filter (deliverable s) ks = [] then lastEventTime s
      else Some (dateNow s (dateReads s + length (filter (deliverable s) ks) - 1)))"
proof (induction ks arbitrary: s)
  case Nil
  show ?case by simp
next
  case (Cons j ks)
  have same: "filter (deliverable (pingClient now j s)) ks = filter (deliverable s) ks"
    by (simp add: deliverable_pingClient cong: filter_cong)
  show ?case
  proof (cases "deliverable s j")
    case False
    with Cons.IH [of s] show ?thesis by (simp add: pingClient_undeliverable)
  next
    case True
    then obtain c m where "map_of (clients s) j = Some c" and "writable s c"
      and "formatEvent (heartbeat now) = Some m" and
      p: "pingClient now j s =
        s\<lparr>streams := (streams s)[controller c :=
                       (streams s ! controller c)\<lparr>chunks := chunks (streams s ! controller c) @ [m]\<rparr>],
          totalEventsSent := totalEventsSent s + 1,
          dateReads := Suc (dateReads s),
          lastEventTime := Some (dateNow s (dateReads s)),
          clients := setLastPing j now (clients s)\<rparr>"
      by (rule pingClient_deliverable)
    have t: "totalEventsSent (pingClient now j s) = totalEventsSent s + 1"
      and d: "dateReads (pingClient now j s) = Suc (dateReads s)"
      and n: "dateNow (pingClient now j s) = dateNow s"
      and l: "lastEventTime (pingClient now j s) = Some (dateNow s (dateReads s))"
      by (simp_all add: p)
    from Cons.IH [of "pingClient now j s"] True show ?thesis
      by (simp add: same t d n l)
  qed
qed

lemma sweepClient_frame [simp]:
  "totalEventsSent (sweepClient now entry s) = totalEventsSent s"
  "lastEventTime (sweepClient now entry s) = lastEventTime s"
  by (simp_all add: sweepClient_def)

lemma fold_sweepClient_frame [simp]:
  "totalEventsSent (fold (sweepClient now) es s) = totalEventsSent s"
  "lastEventTime (fold (sweepClient now) es s) = lastEventTime s"
  by (induction es arbitrary: s) simp_all

lemma cleanupStaleClients_frame [simp]:
  "totalEventsSent (cleanupStaleClients s) = totalEventsSent s"
  "lastEventTime (cleanupStaleClients s) = lastEventTime s"
  by (simp_all add: cleanupStaleClients_def Date_now_def)

lemma getStats_counters:
  "stat_totalEventsSent (fst (getStats s)) = totalEventsSent s \<and>
   stat_lastEventTime (fst (getStats s)) = lastEventTime s"
  by (simp add: getStats_def Date_now_def Let_def)

lemma pingTick_counts:
  assumes "entry \<in> set (clients s)" and "deliverable s (cid (snd entry))"
  shows "let n = length (filter (deliverable s) (map (\<lambda>entry. cid (snd entry)) (clients s)))
         in 0 < n \<and>
            totalEventsSent (pingTick s) = totalEventsSent s + n \<and>
            totalEventsSent s < totalEventsSent (pingTick s) \<and>
            lastEventTime (pingTick s) = Some (dateNow s (dateReads s + n))"
proof -
  let ?ks = "map (\<lambda>entry. cid (snd entry)) (clients s)"
  let ?s1 = "s\<lparr>dateReads := Suc (dateReads s)\<rparr>"
  let ?n = "length (filter (deliverable s) ?ks)"
  have d1: "deliverable ?s1 = deliverable s"
    by (rule ext) (simp add: deliverable_def writable_def split: option.splits)
  from assms(1) have "cid (snd entry) \<in> set ?ks" by force
  with assms(2) have "cid (snd entry) \<in> set (filter (deliverable s) ?ks)" by simp
  then have ne: "filter (deliverable s) ?ks \<noteq> []"
    by (metis empty_iff empty_set)
  then have n: "0 < ?n" by (simp del: filter_map length_filter_map)
  from fold_pingClient_counts [of "dateNow s (dateReads s)" ?ks ?s1] ne n
  have t: "totalEventsSent (pingTick s) = totalEventsSent s + ?n"
    and l: "lastEventTime (pingTick s) = Some (dateNow s (dateReads s + ?n))"
    by (simp_all add: pingTick_def Date_now_def d1 del: filter_map length_filter_map)
  from n t l show ?thesis by (simp add: Let_def del: filter_map length_filter_map)
qed

text \<open>
  C10 (as amended). \<open>totalEventsSent\<close> and \<open>lastEventTime\<close>, which \<^verbatim>\<open>getStats\<close> reports as
  they are, count the synthetic events too. When at least one registered client has a
  stream that accepts the ping, a heartbeat tick with no application event raises
  \<open>totalEventsSent\<close> by the number \<open>n\<close> of pings delivered, which is at least one, and sets
  \<open>lastEventTime\<close> to the clock reading taken at the last delivered ping (the \<open>n\<close>-th
  reading after the one that starts the tick), which is later than the time of the
  delivery before it when the clock is strictly increasing. A registration raises \<open>totalEventsSent\<close>
  by one, for the event \<^verbatim>\<open>connected\<close>, and sets \<open>lastEventTime\<close> to the time of that
  delivery.
\<close>

theorem heartbeat_counts:
  "(entry \<in> set (clients s) \<and> deliverable s (cid (snd entry)) \<longrightarrow>
      (let n = length (filter (deliverable s) (map (\<lambda>entry. cid (snd entry)) (clients s)))
       in 0 < n \<and>
          totalEventsSent (pingTick s) = totalEventsSent s + n \<and>
          totalEventsSent s < totalEventsSent (pingTick s) \<and>
          lastEventTime (pingTick s) = Some (dateNow s (dateReads s + n)) \<and>
          (\<forall>i t. (\<forall>a b. a < b \<longrightarrow> dateNow s a < dateNow s b) \<and> i < dateReads s \<and>
                 lastEventTime s = Some (dateNow s i) \<and> lastEventTime (pingTick s) = Some t \<longrightarrow>
                 dateNow s i < t))) \<and>
   (int (length (clients s)) < maxClients (config s) \<longrightarrow>
      totalEventsSent (snd (createConnection options s)) = totalEventsSent s + 1 \<and>
      lastEventTime (snd (createConnection options s)) = Some (dateNow s (dateReads s + 3))) \<and>
   stat_totalEventsSent (fst (getStats s)) = totalEventsSent s \<and>
   stat_lastEventTime (fst (getStats s)) = lastEventTime s"
proof (intro conjI impI)
  assume a: "entry \<in> set (clients s) \<and> deliverable s (cid (snd entry))"
  let ?n = "length (filter (deliverable s) (map (\<lambda>entry. cid (snd entry)) (clients s)))"
  from a pingTick_counts [of entry s]
  have c: "0 < ?n \<and>
          totalEventsSent (pingTick s) = totalEventsSent s + ?n \<and>
          totalEventsSent s < totalEventsSent (pingTick s) \<and>
          lastEventTime (pingTick s) = Some (dateNow s (dateReads s + ?n))"
    unfolding Let_def by blast
  have adv: "dateNow s i < t"
    if "\<forall>a b. a < b \<longrightarrow> dateNow s a < dateNow s b" and "i < dateReads s"
      and "lastEventTime (pingTick s) = Some t" for i t
  proof -
    from c that(3) have "t = dateNow s (dateReads s + ?n)" by simp
    moreover from that(2) have "i < dateReads s + ?n" by simp
    ultimately show ?thesis using that(1) by blast
  qed
  from c adv show "let n = ?n
       in 0 < n \<and>
          totalEventsSent (pingTick s) = totalEventsSent s + n \<and>
          totalEventsSent s < totalEventsSent (pingTick s) \<and>
          lastEventTime (pingTick s) = Some (dateNow s (dateReads s + n)) \<and>
          (\<forall>i t. (\<forall>a b. a < b \<longrightarrow> dateNow s a < dateNow s b) \<and> i < dateReads s \<and>
                 lastEventTime s = Some (dateNow s i) \<and> lastEventTime (pingTick s) = Some t \<longrightarrow>
                 dateNow s i < t)"
    unfolding Let_def by blast
next
  assume "int (length (clients s)) < maxClients (config s)"
  from createConnection_room [OF this, of options]
  show "totalEventsSent (snd (createConnection options s)) = totalEventsSent s + 1"
    and "lastEventTime (snd (createConnection options s)) = Some (dateNow s (dateReads s + 3))"
    by auto
next
  show "stat_totalEventsSent (fst (getStats s)) = totalEventsSent s"
    and "stat_lastEventTime (fst (getStats s)) = lastEventTime s"
    using getStats_counters [of s] by simp_all
qed

section \<open>Teardown\<close>

lemma disconnectClient_closed_stays:
  assumes "a < length (streams s)" and "streamState (streams s ! a) = Closed"
  shows "streams (snd (disconnectClient j s)) ! a = streams s ! a"
proof (cases j s rule: disconnectClient_cases)
  case same
  then show ?thesis by simp
next
  case (removed d)
  with assms have "controller d \<noteq> a" by (auto simp: writable_def)
  with removed show ?thesis by simp
qed

lemma disconnectClient_closes:
  assumes "map_of (clients s) k = Some c" and "controller c < length (streams s)"
  shows "streamState (streams (snd (disconnectClient k s)) ! controller c) = Closed"
proof (cases "writable s c")
  case True
  from disconnectClient_open [OF assms(1) True] assms(2) show ?thesis by simp
next
  case False
  with assms(2) have "streamState (streams s ! controller c) = Closed"
    by (cases "streamState (streams s ! controller c)") (auto simp: writable_def)
  with assms False show ?thesis by (simp add: disconnectClient_closed)
qed

lemma disconnectAll_frame [simp]:
  "config (disconnectAll ks s) = config s"
  "pingInterval (disconnectAll ks s) = pingInterval s"
  "timers (disconnectAll ks s) = timers s"
  "length (streams (disconnectAll ks s)) = length (streams s)"
  by (induction ks arbitrary: s) simp_all

lemma disconnectAll_closed_stays:
  "a < length (streams s) \<Longrightarrow> streamState (streams s ! a) = Closed \<Longrightarrow>
   streamState (streams (disconnectAll ks s) ! a) = Closed"
proof (induction ks arbitrary: s)
  case Nil
  then show ?case by simp
next
  case (Cons k ks)
  from disconnectClient_closed_stays [OF Cons.prems, of k] Cons.prems
  have "a < length (streams (snd (disconnectClient k s)))"
    "streamState (streams (snd (disconnectClient k s)) ! a) = Closed"
    by simp_all
  from Cons.IH [OF this] show ?case by simp
qed

lemma disconnectAll_closes:
  assumes "distinct ks"
    and "\<forall>k \<in> set ks. \<forall>c. map_of (clients s) k = Some c \<longrightarrow> controller c < length (streams s)"
    and "k \<in> set ks" and "map_of (clients s) k = Some c"
  shows "streamState (streams (disconnectAll ks s) ! controller c) = Closed"
  using assms
proof (induction ks arbitrary: s)
  case Nil
  then show ?case by simp
next
  case (Cons j ks)
  let ?s1 = "snd (disconnectClient j s)"
  show ?case
  proof (cases "k = j")
    case True
    from Cons.prems have v: "controller c < length (streams s)" by auto
    from disconnectClient_closes [OF Cons.prems(4) v] True v
    have "controller c < length (streams ?s1)" "streamState (streams ?s1 ! controller c) = Closed"
      by simp_all
    from disconnectAll_closed_stays [OF this] show ?thesis by simp
  next
    case False
    with Cons.prems have k: "k \<in> set ks" and d: "distinct ks" and j: "j \<notin> set ks" by auto
    have other: "map_of (clients ?s1) i = map_of (clients s) i" if "i \<in> set ks" for i
    proof -
      from that j have "i \<noteq> j" by auto
      then show ?thesis by (rule disconnectClient_other)
    qed
    have "\<forall>i \<in> set ks. \<forall>c. map_of (clients ?s1) i = Some c \<longrightarrow> controller c < length (streams ?s1)"
      using Cons.prems(2) other by simp
    moreover have "map_of (clients ?s1) k = Some c" using other [OF k] Cons.prems(4) by simp
    ultimately show ?thesis using Cons.IH [OF d _ k, of ?s1] by simp
  qed
qed

lemma sendToClients_empty:
  "clients s = [] \<Longrightarrow> sendToClients f e s = (0, s)"
  by (simp add: sendToClients_def getClientsByFilter_def)

text \<open>
  C2 (as amended), for a state that satisfies \<open>registryOk\<close>, as every reachable state
  does. After \<^verbatim>\<open>destroy\<close> the registry is empty, the interval timer no longer
  runs the heartbeat, the stream of every client that was registered is closed, and
  \<^verbatim>\<open>sendToClient\<close>, \<^verbatim>\<open>sendToClients\<close>, \<^verbatim>\<open>broadcast\<close>, \<^verbatim>\<open>sendToUser\<close>, \<^verbatim>\<open>disconnectClient\<close>,
  \<^verbatim>\<open>getClientsByFilter\<close> and a second \<^verbatim>\<open>destroy\<close> change nothing and return false, zero or
  the empty list; no operation throws. Registration is not rejected: with \<open>maxClients\<close>
  positive, \<^verbatim>\<open>createConnection\<close> on the destroyed engine succeeds and registers a client.
  The heartbeat stays stopped after that registration: when the interval elapses nothing
  runs, so the new client gets no ping and is never swept.
\<close>

theorem destroy_effects:
  assumes "registryOk s"
  shows "clients (destroy s) = [] \<and>
         intervalElapsed (destroy s) = destroy s \<and>
         (\<forall>entry \<in> set (clients s). streamState (streams (destroy s) ! controller (snd entry)) = Closed) \<and>
         sendToClient k e (destroy s) = (False, destroy s) \<and>
         sendToClients f e (destroy s) = (0, destroy s) \<and>
         broadcast e (destroy s) = (0, destroy s) \<and>
         sendToUser u e (destroy s) = (0, destroy s) \<and>
         disconnectClient k (destroy s) = (False, destroy s) \<and>
         getClientsByFilter f (destroy s) = [] \<and>
         destroy (destroy s) = destroy s \<and>
         (0 < maxClients (config s) \<longrightarrow>
            (\<exists>response. fst (createConnection options (destroy s)) = Inr response) \<and>
            length (clients (snd (createConnection options (destroy s)))) = 1) \<and>
         intervalElapsed (snd (createConnection options (destroy s))) =
           snd (createConnection options (destroy s))"
proof -
  let ?s1 = "case pingInterval s of Some h \<Rightarrow> s\<lparr>timers := removeAll h (timers s)\<rparr> | None \<Rightarrow> s"
  let ?ks = "map fst (clients s)"
  have s1: "clients ?s1 = clients s" "streams ?s1 = streams s" "config ?s1 = config s"
    "pingInterval ?s1 = pingInterval s"
    by (simp_all split: option.splits)
  have d: "destroy s = (disconnectAll ?ks ?s1)\<lparr>clients := []\<rparr>"
    by (simp add: destroy_def Let_def s1)
  have empty: "clients (destroy s) = []" by (simp add: d)
  have cfg: "config (destroy s) = config s" by (simp add: d s1)
  have quiet: "intervalElapsed (destroy s) = destroy s"
    by (cases "pingInterval s") (simp_all add: intervalElapsed_def d)
  have closed: "streamState (streams (destroy s) ! controller (snd entry)) = Closed"
    if "entry \<in> set (clients s)" for entry
  proof -
    from assms have dist: "distinct ?ks" by (simp add: registryOk_def)
    from that have k: "fst entry \<in> set ?ks" by simp
    from dist that have m: "map_of (clients s) (fst entry) = Some (snd entry)" by simp
    have v: "\<forall>k \<in> set ?ks. \<forall>c. map_of (clients ?s1) k = Some c \<longrightarrow> controller c < length (streams ?s1)"
    proof (intro ballI allI impI)
      fix k c
      assume "map_of (clients ?s1) k = Some c"
      then have "(k, c) \<in> set (clients s)" by (simp add: s1 map_of_SomeD)
      with assms show "controller c < length (streams ?s1)"
        by (auto simp: registryOk_def list_all_iff s1)
    qed
    from disconnectAll_closes [OF dist v k] m show ?thesis by (simp add: d s1)
  qed
  have again: "destroy (destroy s) = destroy s"
    by (cases "pingInterval s") (simp_all add: destroy_def Let_def)
  have room: "(\<exists>response. fst (createConnection options (destroy s)) = Inr response) \<and>
      length (clients (snd (createConnection options (destroy s)))) = 1"
    if "0 < maxClients (config s)"
  proof -
    from that have "int (length (clients (destroy s))) < maxClients (config (destroy s))"
      by (simp add: empty cfg)
    from createConnection_room [OF this, of options] show ?thesis by (auto simp: empty)
  qed
  have never: "intervalElapsed (snd (createConnection options (destroy s))) =
      snd (createConnection options (destroy s))"
    by (cases "pingInterval s") (simp_all add: intervalElapsed_def d)
  from empty quiet closed again room never show ?thesis
    by (simp add: sendToClient_absent disconnectClient_absent sendToClients_empty broadcast_def
          sendToUser_def getClientsByFilter_def)
qed

section \<open>Broadcast and delivery to a user\<close>

lemma sendEach_all_delivered:
  assumes "formatEvent e = Some m"
    and "distinct (map controller cs)"
    and "\<forall>c \<in> set cs. map_of (clients s) (cid c) = Some c \<and> writable s c"
  shows "fst (sendEach cs e n s) = n + length cs \<and>
         clients (snd (sendEach cs e n s)) = clients s \<and>
         length (streams (snd (sendEach cs e n s))) = length (streams s) \<and>
         (\<forall>a < length (streams s). streams (snd (sendEach cs e n s)) ! a =
            (if a \<in> controller ` set cs then (streams s ! a)\<lparr>chunks := chunks (streams s ! a) @ [m]\<rparr>
             else streams s ! a))"
  using assms(2,3)
proof (induction cs arbitrary: n s)
  case Nil
  show ?case by simp
next
  case (Cons c cs)
  let ?s1 = "s\<lparr>streams := (streams s)[controller c :=
                 (streams s ! controller c)\<lparr>chunks := chunks (streams s ! controller c) @ [m]\<rparr>],
             totalEventsSent := totalEventsSent s + 1,
             dateReads := Suc (dateReads s),
             lastEventTime := Some (dateNow s (dateReads s))\<rparr>"
  from Cons.prems have c: "map_of (clients s) (cid c) = Some c" "writable s c" by auto
  have step: "sendToClient (cid c) e s = (True, ?s1)"
    by (rule sendToClient_open [OF c assms(1)])
  from Cons.prems have d: "distinct (map controller cs)" and fresh: "controller c \<notin> controller ` set cs"
    by auto
  from Cons.prems have rest: "\<forall>c' \<in> set cs. map_of (clients ?s1) (cid c') = Some c' \<and> writable ?s1 c'"
    by (auto simp: writable_def)
  let ?t = "sendEach cs e (n + 1) ?s1"
  from Cons.IH [OF d rest, of "n + 1"]
  have i1: "fst ?t = n + 1 + length cs"
    and i2: "clients (snd ?t) = clients ?s1"
    and i3: "length (streams (snd ?t)) = length (streams ?s1)"
    and i4: "\<forall>a < length (streams ?s1). streams (snd ?t) ! a =
        (if a \<in> controller ` set cs then (streams ?s1 ! a)\<lparr>chunks := chunks (streams ?s1 ! a) @ [m]\<rparr>
         else streams ?s1 ! a)"
    by blast+
  have run: "sendEach (c # cs) e n s = ?t"
    by (simp add: step)
  have cv: "controller c < length (streams s)" using c(2) by (simp add: writable_def)
  show ?case
  proof (intro conjI allI impI)
    show "fst (sendEach (c # cs) e n s) = n + length (c # cs)" unfolding run using i1 by simp
    show "clients (snd (sendEach (c # cs) e n s)) = clients s" unfolding run using i2 by simp
    show "length (streams (snd (sendEach (c # cs) e n s))) = length (streams s)"
      unfolding run using i3 by simp
  next
    fix a
    assume a: "a < length (streams s)"
    then have "a < length (streams ?s1)" by simp
    with i4 have at: "streams (snd ?t) ! a =
        (if a \<in> controller ` set cs then (streams ?s1 ! a)\<lparr>chunks := chunks (streams ?s1 ! a) @ [m]\<rparr>
         else streams ?s1 ! a)"
      by blast
    show "streams (snd (sendEach (c # cs) e n s)) ! a =
        (if a \<in> controller ` set (c # cs) then (streams s ! a)\<lparr>chunks := chunks (streams s ! a) @ [m]\<rparr>
         else streams s ! a)"
    proof (cases "a = controller c")
      case True
      with fresh cv show ?thesis unfolding run at by simp
    next
      case False
      then show ?thesis unfolding run at by simp
    qed
  qed
qed

lemma registryOk_lookup:
  assumes "registryOk s" and "entry \<in> set (clients s)"
  shows "map_of (clients s) (cid (snd entry)) = Some (snd entry)"
    and "controller (snd entry) < length (streams s)"
proof -
  from assms have k: "cid (snd entry) = fst entry" and v: "controller (snd entry) < length (streams s)"
    by (auto simp: registryOk_def list_all_iff)
  from assms have "map_of (clients s) (fst entry) = Some (snd entry)"
    by (simp add: registryOk_def)
  with k show "map_of (clients s) (cid (snd entry)) = Some (snd entry)" by simp
  from v show "controller (snd entry) < length (streams s)" .
qed

lemma registryOk_controller_inj:
  assumes "registryOk s" and "x \<in> set (clients s)" and "y \<in> set (clients s)"
    and "controller (snd x) = controller (snd y)"
  shows "x = y"
proof -
  from assms(1) have "inj_on (\<lambda>entry. controller (snd entry)) (set (clients s))"
    by (simp add: registryOk_def distinct_map)
  with assms(2-) show ?thesis by (auto dest: inj_onD)
qed

lemma sendToClients_all_delivered:
  assumes ok: "registryOk s" and m: "formatEvent e = Some m"
    and w: "\<forall>entry \<in> set (clients s). matchesFilter f (snd entry) \<longrightarrow> writable s (snd entry)"
  shows "fst (sendToClients f e s) = length (filter (\<lambda>entry. matchesFilter f (snd entry)) (clients s)) \<and>
         clients (snd (sendToClients f e s)) = clients s \<and>
         (\<forall>entry \<in> set (clients s).
            chunks (streams (snd (sendToClients f e s)) ! controller (snd entry)) =
              (if matchesFilter f (snd entry) then chunks (streams s ! controller (snd entry)) @ [m]
               else chunks (streams s ! controller (snd entry))))"
proof -
  let ?cs = "getClientsByFilter f s"
  have cs: "?cs = map snd (filter (\<lambda>entry. matchesFilter f (snd entry)) (clients s))"
    by (simp add: getClientsByFilter_def filter_map comp_def)
  from ok have "distinct (map (\<lambda>entry. controller (snd entry)) (clients s))"
    by (simp add: registryOk_def)
  then have "distinct (map (\<lambda>entry. controller (snd entry))
      (filter (\<lambda>entry. matchesFilter f (snd entry)) (clients s)))"
    by (rule distinct_map_filter)
  then have d: "distinct (map controller ?cs)" by (simp add: cs comp_def)
  have r: "\<forall>c \<in> set ?cs. map_of (clients s) (cid c) = Some c \<and> writable s c"
  proof
    fix c
    assume "c \<in> set ?cs"
    then obtain entry where e: "entry \<in> set (clients s)" "matchesFilter f (snd entry)" "c = snd entry"
      by (auto simp: cs)
    with registryOk_lookup(1) [OF ok e(1)] w
    show "map_of (clients s) (cid c) = Some c \<and> writable s c" by simp
  qed
  note all = sendEach_all_delivered [OF m d r, of 0]
  have count: "fst (sendToClients f e s) = length (filter (\<lambda>entry. matchesFilter f (snd entry)) (clients s))"
    using all by (simp add: sendToClients_def) (simp add: cs)
  have same: "clients (snd (sendToClients f e s)) = clients s"
    using all by (simp add: sendToClients_def)
  have each: "chunks (streams (snd (sendToClients f e s)) ! controller (snd entry)) =
              (if matchesFilter f (snd entry) then chunks (streams s ! controller (snd entry)) @ [m]
               else chunks (streams s ! controller (snd entry)))"
    if entry: "entry \<in> set (clients s)" for entry
  proof -
    have v: "controller (snd entry) < length (streams s)"
      by (rule registryOk_lookup(2) [OF ok entry])
    have iff: "controller (snd entry) \<in> controller ` set ?cs \<longleftrightarrow> matchesFilter f (snd entry)"
    proof
      assume "controller (snd entry) \<in> controller ` set ?cs"
      then obtain y where y: "y \<in> set (clients s)" "matchesFilter f (snd y)"
        "controller (snd entry) = controller (snd y)"
        by (auto simp: cs)
      from registryOk_controller_inj [OF ok entry y(1) y(3)] y(2)
      show "matchesFilter f (snd entry)" by simp
    next
      assume "matchesFilter f (snd entry)"
      with entry have "snd entry \<in> set ?cs" by (auto simp: cs)
      then show "controller (snd entry) \<in> controller ` set ?cs" by (rule imageI)
    qed
    from all v have "streams (snd (sendToClients f e s)) ! controller (snd entry) =
        (if controller (snd entry) \<in> controller ` set ?cs
         then (streams s ! controller (snd entry))\<lparr>chunks := chunks (streams s ! controller (snd entry)) @ [m]\<rparr>
         else streams s ! controller (snd entry))"
      by (simp add: sendToClients_def)
    then show ?thesis by (simp add: iff)
  qed
  from count same each show ?thesis by blast
qed

lemma matchesFilter_userId:
  "u \<noteq> [] \<Longrightarrow> matchesFilter (emptyFilter\<lparr>f_userId := Some u\<rparr>) c \<longleftrightarrow> userId c = Some u"
  by (simp add: matchesFilter_def emptyFilter_def)

text \<open>
  C7 (as amended). \<^verbatim>\<open>broadcast(e)\<close> is \<^verbatim>\<open>sendToClients\<close> with the empty filter and
  \<^verbatim>\<open>sendToUser(u, e)\<close> is \<^verbatim>\<open>sendToClients\<close> with the filter that has the userId \<open>u\<close> only.
  With the empty string as userId, \<^verbatim>\<open>sendToUser\<close> is \<^verbatim>\<open>broadcast\<close>, in every state and for every
  event: it selects every registered client.
  In a state that satisfies \<open>registryOk\<close>, as every reachable state does: when the event
  has a frame \<open>m\<close> and the stream of every registered client accepts the write,
  \<^verbatim>\<open>broadcast\<close> returns the number of registered clients, leaves the registry as it
  is and appends the one frame \<open>m\<close> to the stream of each. When moreover \<open>u\<close> is not the
  empty string (and the streams of the clients of \<open>u\<close> accept the write), \<^verbatim>\<open>sendToUser\<close>
  returns the number of registered clients whose userId is \<open>u\<close>, appends the frame to the
  stream of each of them and leaves the stream of every other registered client as it is.
\<close>

theorem broadcast_and_sendToUser:
  "broadcast e s = sendToClients emptyFilter e s \<and>
   sendToUser u e s = sendToClients (emptyFilter\<lparr>f_userId := Some u\<rparr>) e s \<and>
   sendToUser [] e s = broadcast e s \<and>
   getClientsByFilter (emptyFilter\<lparr>f_userId := Some []\<rparr>) s = map snd (clients s) \<and>
   (registryOk s \<and> formatEvent e = Some m \<and> (\<forall>entry \<in> set (clients s). writable s (snd entry)) \<longrightarrow>
      fst (broadcast e s) = length (clients s) \<and>
      clients (snd (broadcast e s)) = clients s \<and>
      (\<forall>entry \<in> set (clients s).
         chunks (streams (snd (broadcast e s)) ! controller (snd entry)) =
           chunks (streams s ! controller (snd entry)) @ [m])) \<and>
   (registryOk s \<and> formatEvent e = Some m \<and> u \<noteq> [] \<and>
    (\<forall>entry \<in> set (clients s). userId (snd entry) = Some u \<longrightarrow> writable s (snd entry)) \<longrightarrow>
      fst (sendToUser u e s) = length (filter (\<lambda>entry. userId (snd entry) = Some u) (clients s)) \<and>
      clients (snd (sendToUser u e s)) = clients s \<and>
      (\<forall>entry \<in> set (clients s).
         chunks (streams (snd (sendToUser u e s)) ! controller (snd entry)) =
           (if userId (snd entry) = Some u then chunks (streams s ! controller (snd entry)) @ [m]
            else chunks (streams s ! controller (snd entry)))))"
proof (intro conjI impI)
  show "broadcast e s = sendToClients emptyFilter e s" by (simp add: broadcast_def)
  show "sendToUser u e s = sendToClients (emptyFilter\<lparr>f_userId := Some u\<rparr>) e s"
    by (simp add: sendToUser_def)
  show "sendToUser [] e s = broadcast e s"
    by (simp add: sendToUser_def broadcast_def sendToClients_def getClientsByFilter_def
          matchesFilter_def emptyFilter_def)
  show "getClientsByFilter (emptyFilter\<lparr>f_userId := Some []\<rparr>) s = map snd (clients s)"
    by (simp add: getClientsByFilter_def matchesFilter_def emptyFilter_def)
next
  assume a: "registryOk s \<and> formatEvent e = Some m \<and> (\<forall>entry \<in> set (clients s). writable s (snd entry))"
  then have "\<forall>entry \<in> set (clients s). matchesFilter emptyFilter (snd entry) \<longrightarrow> writable s (snd entry)"
    by simp
  with a sendToClients_all_delivered [of s e m emptyFilter]
  have "fst (broadcast e s) = length (clients s) \<and>
      clients (snd (broadcast e s)) = clients s \<and>
      (\<forall>entry \<in> set (clients s).
         chunks (streams (snd (broadcast e s)) ! controller (snd entry)) =
           chunks (streams s ! controller (snd entry)) @ [m])"
    by (simp add: broadcast_def matchesFilter_empty)
  then show "fst (broadcast e s) = length (clients s)"
    and "clients (snd (broadcast e s)) = clients s"
    and "\<forall>entry \<in> set (clients s).
         chunks (streams (snd (broadcast e s)) ! controller (snd entry)) =
           chunks (streams s ! controller (snd entry)) @ [m]"
    by simp_all
next
  assume a: "registryOk s \<and> formatEvent e = Some m \<and> u \<noteq> [] \<and>
    (\<forall>entry \<in> set (clients s). userId (snd entry) = Some u \<longrightarrow> writable s (snd entry))"
  then have mf: "matchesFilter (emptyFilter\<lparr>f_userId := Some u\<rparr>) c \<longleftrightarrow> userId c = Some u" for c
    by (simp add: matchesFilter_userId)
  from a have "\<forall>entry \<in> set (clients s).
      matchesFilter (emptyFilter\<lparr>f_userId := Some u\<rparr>) (snd entry) \<longrightarrow> writable s (snd entry)"
    by (simp add: mf)
  with a sendToClients_all_delivered [of s e m "emptyFilter\<lparr>f_userId := Some u\<rparr>"]
  have "fst (sendToUser u e s) = length (filter (\<lambda>entry. userId (snd entry) = Some u) (clients s)) \<and>
      clients (snd (sendToUser u e s)) = clients s \<and>
      (\<forall>entry \<in> set (clients s).
         chunks (streams (snd (sendToUser u e s)) ! controller (snd entry)) =
           (if userId (snd entry) = Some u then chunks (streams s ! controller (snd entry)) @ [m]
            else chunks (streams s ! controller (snd entry))))"
    by (simp add: sendToUser_def mf)
  then show "fst (sendToUser u e s) = length (filter (\<lambda>entry. userId (snd entry) = Some u) (clients s))"
    and "clients (snd (sendToUser u e s)) = clients s"
    and "\<forall>entry \<in> set (clients s).
         chunks (streams (snd (sendToUser u e s)) ! controller (snd entry)) =
           (if userId (snd entry) = Some u then chunks (streams s ! controller (snd entry)) @ [m]
            else chunks (streams s ! controller (snd entry)))"
    by simp_all
qed

section \<open>The registry invariant\<close>

text \<open>
  \<open>registryOk\<close> holds of a new engine and every operation keeps it.
\<close>

lemma registryOk_same:
  "clients t = clients s \<Longrightarrow> length (streams t) = length (streams s) \<Longrightarrow> registryOk t = registryOk s"
  by (simp add: registryOk_def)

lemma registryOk_new: "registryOk (newEventService c clock rnd)"
  by (simp add: registryOk_def newEventService_def)

lemma registryOk_delete:
  assumes "registryOk s" and "clients t = Map_delete k (clients s)"
    and "length (streams t) = length (streams s)"
  shows "registryOk t"
  using assms by (auto simp: registryOk_def Map_delete_def list_all_iff distinct_map_filter)

lemma map_fst_setLastPing [simp]: "map fst (setLastPing k now cs) = map fst cs"
  by (induction cs) (auto simp: setLastPing_def)

lemma map_controller_setLastPing [simp]:
  "map (\<lambda>entry. controller (snd entry)) (setLastPing k now cs) = map (\<lambda>entry. controller (snd entry)) cs"
  by (induction cs) (auto simp: setLastPing_def)

lemma registryOk_setLastPing:
  assumes "registryOk s" and "clients t = setLastPing k now (clients s)"
    and "length (streams t) = length (streams s)"
  shows "registryOk t"
proof -
  have "list_all (\<lambda>entry. cid (snd entry) = fst entry \<and> controller (snd entry) < n)
      (setLastPing k now cs) =
    list_all (\<lambda>entry. cid (snd entry) = fst entry \<and> controller (snd entry) < n) cs" for n cs
    by (induction cs) (auto simp: setLastPing_def split: if_splits)
  with assms show ?thesis by (simp add: registryOk_def)
qed

lemma registryOk_disconnectClient: "registryOk s \<Longrightarrow> registryOk (snd (disconnectClient k s))"
proof (cases k s rule: disconnectClient_cases)
  case same
  then show "registryOk s \<Longrightarrow> registryOk (snd (disconnectClient k s))" by simp
next
  case (removed c)
  assume "registryOk s"
  then show "registryOk (snd (disconnectClient k s))"
    by (rule registryOk_delete [where k = k]) (simp_all add: removed)
qed

lemma registryOk_sendToClient: "registryOk s \<Longrightarrow> registryOk (snd (sendToClient k e s))"
proof (cases k e s rule: sendToClient_cases)
  case same
  then show "registryOk s \<Longrightarrow> registryOk (snd (sendToClient k e s))" by simp
next
  case dropped
  then show "registryOk s \<Longrightarrow> registryOk (snd (sendToClient k e s))"
    by (simp add: registryOk_disconnectClient)
next
  case (sent c m)
  then have "registryOk (snd (sendToClient k e s)) = registryOk s"
    by (intro registryOk_same) simp_all
  then show "registryOk s \<Longrightarrow> registryOk (snd (sendToClient k e s))" by simp
qed

lemma registryOk_sendEach: "registryOk s \<Longrightarrow> registryOk (snd (sendEach cs e n s))"
proof (induction cs arbitrary: n s)
  case Nil
  then show ?case by simp
next
  case (Cons c cs)
  from Cons.IH [OF registryOk_sendToClient [OF Cons.prems, of "cid c" e]]
  show ?case by (simp add: case_prod_beta)
qed

lemma registryOk_sendToClients: "registryOk s \<Longrightarrow> registryOk (snd (sendToClients f e s))"
  by (simp add: sendToClients_def registryOk_sendEach)

lemma registryOk_pingClient: "registryOk s \<Longrightarrow> registryOk (pingClient now k s)"
proof -
  assume ok: "registryOk s"
  let ?s1 = "snd (sendToClient k (heartbeat now) s)"
  from ok have 1: "registryOk ?s1" by (rule registryOk_sendToClient)
  then have "registryOk (?s1\<lparr>clients := setLastPing k now (clients ?s1)\<rparr>)"
    by (rule registryOk_setLastPing [where k = k and now = now]) simp_all
  with 1 show ?thesis by (simp add: pingClient_def case_prod_beta)
qed

lemma registryOk_fold_pingClient: "registryOk s \<Longrightarrow> registryOk (fold (pingClient now) ks s)"
  by (induction ks arbitrary: s) (simp_all add: registryOk_pingClient)

lemma registryOk_fold_sweepClient: "registryOk s \<Longrightarrow> registryOk (fold (sweepClient now) es s)"
  by (induction es arbitrary: s) (simp_all add: sweepClient_def registryOk_disconnectClient)

lemma registryOk_dateReads [simp]: "registryOk (s\<lparr>dateReads := n\<rparr>) = registryOk s"
  by (simp add: registryOk_def)

lemma registryOk_cleanupStaleClients: "registryOk s \<Longrightarrow> registryOk (cleanupStaleClients s)"
  by (simp add: cleanupStaleClients_def Date_now_def registryOk_fold_sweepClient)

lemma registryOk_pingTick: "registryOk s \<Longrightarrow> registryOk (pingTick s)"
  by (simp add: pingTick_def Date_now_def registryOk_cleanupStaleClients registryOk_fold_pingClient)

lemma registryOk_destroy: "registryOk (destroy s)"
  by (simp add: registryOk_def destroy_def Let_def)

lemma registryOk_stream_cancel: "registryOk s \<Longrightarrow> registryOk (stream_cancel a s)"
proof -
  assume ok: "registryOk s"
  let ?s1 = "s\<lparr>streams := (streams s)[a := (streams s ! a)\<lparr>streamState := Closed\<rparr>]\<rparr>"
  have "registryOk ?s1 = registryOk s" by (rule registryOk_same) simp_all
  with ok have "registryOk (snd (disconnectClient (cancelClientId (streams s ! a)) ?s1))"
    by (simp add: registryOk_disconnectClient)
  with ok show ?thesis by (simp add: stream_cancel_def)
qed

lemma map_fst_Map_set:
  "map fst (Map_set k v cs) = (if k \<in> fst ` set cs then map fst cs else map fst cs @ [k])"
  by (induction cs) auto

lemma set_Map_set: "set (Map_set k v cs) \<subseteq> insert (k, v) (set cs)"
  by (induction cs) auto

lemma distinct_map_Map_set:
  "distinct (map g (Map_set k v cs))" if "distinct (map g cs)" and "g (k, v) \<notin> g ` set cs"
  using that by (induction cs) (auto dest!: subsetD [OF set_Map_set])

lemma registryOk_createConnection:
  assumes "registryOk s"
  shows "registryOk (snd (createConnection options s))"
proof (cases "int (length (clients s)) < maxClients (config s)")
  case False
  then have "maxClients (config s) \<le> int (length (clients s))" by simp
  with assms show ?thesis by (simp add: createConnection_full)
next
  case True
  let ?k = "newClientId s" and ?c = "newClient options s"
  from createConnection_room [OF True, of options]
  have cl: "clients (snd (createConnection options s)) = Map_set ?k ?c (clients s)"
    and st: "length (streams (snd (createConnection options s))) = Suc (length (streams s))"
    by auto
  from assms have old: "\<forall>entry \<in> set (clients s). controller (snd entry) < length (streams s)"
    by (auto simp: registryOk_def list_all_iff)
  then have fresh: "controller (snd (?k, ?c)) \<notin> (\<lambda>entry. controller (snd entry)) ` set (clients s)"
    by (auto simp: newClient_def)
  from assms have "distinct (map fst (Map_set ?k ?c (clients s)))"
    by (auto simp: registryOk_def map_fst_Map_set)
  moreover have "list_all (\<lambda>entry. cid (snd entry) = fst entry \<and>
      controller (snd entry) < Suc (length (streams s))) (Map_set ?k ?c (clients s))"
  proof -
    have "\<forall>entry \<in> insert (?k, ?c) (set (clients s)). cid (snd entry) = fst entry \<and>
        controller (snd entry) < Suc (length (streams s))"
      using assms by (auto simp: registryOk_def list_all_iff newClient_def less_Suc_eq)
    with set_Map_set [of ?k ?c "clients s"] show ?thesis
      by (auto simp: list_all_iff)
  qed
  moreover from assms fresh
  have "distinct (map (\<lambda>entry. controller (snd entry)) (Map_set ?k ?c (clients s)))"
    by (intro distinct_map_Map_set) (simp_all add: registryOk_def)
  ultimately show ?thesis by (simp add: registryOk_def cl st)
qed

section \<open>The small engine: witnesses and counterexamples\<close>

lemma demoLate_eval:
  "demoLate =
     \<lparr>clients = [(''rt_1000_r0'',
         \<lparr>cid = ''rt_1000_r0'', userId = Some ''alice'', sessionId = None, controller = 0,
          connectedAt = 1010, lastPing = 1020, metadata = None\<rparr>)],
      pingInterval = Some 0, totalEventsSent = 1, lastEventTime = Some 1030,
      config = \<lparr>cfg_pingInterval = 100, clientTimeout = 200, maxClients = 2, enableLogging = False\<rparr>,
      streams = [\<lparr>streamState = Closed, chunks = [connectedFrame ''rt_1000_r0'' 1010],
                  cancelClientId = ''rt_1000_r0''\<rparr>],
      timers = [0], dateNow = demoClock, dateReads = 100, mathRandom = demoRandom, randomReads = 1\<rparr>"
  by (simp add: demoLate_def demoGone_eval)

lemma demoLate_client:
  "map_of (clients demoLate) ''rt_1000_r0'' =
     Some \<lparr>cid = ''rt_1000_r0'', userId = Some ''alice'', sessionId = None, controller = 0,
           connectedAt = 1010, lastPing = 1020, metadata = None\<rparr>"
  by (simp add: demoLate_eval)

lemma demoLate_closed:
  "\<not> writable demoLate \<lparr>cid = ''rt_1000_r0'', userId = Some ''alice'', sessionId = None, controller = 0,
           connectedAt = 1010, lastPing = 1020, metadata = None\<rparr>"
  by (simp add: writable_def demoLate_eval)

lemma pingTick_demoLate: "pingTick demoLate = demoLate\<lparr>dateReads := 102\<rparr>"
proof -
  have 1: "sendToClient ''rt_1000_r0'' e demoLate = (False, demoLate)" for e
    by (rule sendToClient_closed [OF demoLate_client demoLate_closed])
  have 2: "sendToClient ''rt_1000_r0'' e (demoLate\<lparr>dateReads := n\<rparr>) = (False, demoLate\<lparr>dateReads := n\<rparr>)" for e n
    by (rule sendToClient_closed [where c = "\<lparr>cid = ''rt_1000_r0'', userId = Some ''alice'', sessionId = None, controller = 0,
           connectedAt = 1010, lastPing = 1020, metadata = None\<rparr>"]) (simp_all add: demoLate_eval writable_def)
  have 3: "disconnectClient ''rt_1000_r0'' (demoLate\<lparr>dateReads := n\<rparr>) = (False, demoLate\<lparr>dateReads := n\<rparr>)" for n
    by (rule disconnectClient_closed [where c = "\<lparr>cid = ''rt_1000_r0'', userId = Some ''alice'', sessionId = None, controller = 0,
           connectedAt = 1010, lastPing = 1020, metadata = None\<rparr>"]) (simp_all add: demoLate_eval writable_def)
  have c: "clients (demoLate\<lparr>dateReads := n\<rparr>) = [(''rt_1000_r0'',
         \<lparr>cid = ''rt_1000_r0'', userId = Some ''alice'', sessionId = None, controller = 0,
          connectedAt = 1010, lastPing = 1020, metadata = None\<rparr>)]" for n
    by (simp add: demoLate_eval)
  have r: "dateReads demoLate = 100" "dateNow demoLate = demoClock"
    "clientTimeout (config demoLate) = 200"
    by (simp_all add: demoLate_eval)
  show ?thesis
    by (simp add: pingTick_def Date_now_def r c pingClient_def 2 cleanupStaleClients_def
          sweepClient_def 3 demoClock_def)
qed

lemma destroy_demo2:
  "destroy demo2 = demo2\<lparr>clients := [], timers := [],
      streams := [\<lparr>streamState = Closed, chunks = [connectedFrame ''rt_1000_r0'' 1010],
                  cancelClientId = ''rt_1000_r0''\<rparr>,
                 \<lparr>streamState = Closed, chunks = [connectedFrame ''rt_1040_r1'' 1050],
                  cancelClientId = ''rt_1040_r1''\<rparr>]\<rparr>"
  by (simp add: demo2_eval destroy_def disconnectClient_def controller_close_def Map_delete_def Let_def)

lemma registryOk_demo2: "registryOk demo2"
  by (simp add: registryOk_def demo2_eval)

lemma connect_after_destroy:
  "fst (createConnection (demoOptions ''carol'') (destroy demo2)) = Inr \<lparr>body = 2, headers = responseHeaders\<rparr> \<and>
   map (\<lambda>entry. userId (snd entry)) (clients (snd (createConnection (demoOptions ''carol'') (destroy demo2)))) =
     [Some ''carol''] \<and>
   timers (snd (createConnection (demoOptions ''carol'') (destroy demo2))) = []"
  by (simp add: destroy_demo2) (simp add: demo2_eval demo_defs)

lemma broadcast_demo2:
  "fst (broadcast demoEvent demo2) = 2 \<and>
   map chunks (streams (snd (broadcast demoEvent demo2))) =
     [[connectedFrame ''rt_1000_r0'' 1010, demoFrame], [connectedFrame ''rt_1040_r1'' 1050, demoFrame]]"
  by (simp add: broadcast_def sendToClients_def getClientsByFilter_def matchesFilter_empty demo2_eval
        sendToClient_def formatEvent_demoEvent controller_enqueue_def Date_now_def demoFrame_def)

lemma sendToUser_demo2:
  "fst (sendToUser ''bob'' demoEvent demo2) = 1 \<and>
   map chunks (streams (snd (sendToUser ''bob'' demoEvent demo2))) =
     [[connectedFrame ''rt_1000_r0'' 1010], [connectedFrame ''rt_1040_r1'' 1050, demoFrame]]"
  by (simp add: sendToUser_def sendToClients_def getClientsByFilter_def matchesFilter_def emptyFilter_def
        demo2_eval sendToClient_def formatEvent_demoEvent controller_enqueue_def Date_now_def demoFrame_def)

lemma sendToUser_empty_demo2:
  "fst (sendToUser [] demoEvent demo2) = 2 \<and>
   map (\<lambda>entry. userId (snd entry)) (clients demo2) = [Some ''alice'', Some ''bob''] \<and>
   map chunks (streams (snd (sendToUser [] demoEvent demo2))) =
     [[connectedFrame ''rt_1000_r0'' 1010, demoFrame], [connectedFrame ''rt_1040_r1'' 1050, demoFrame]]"
  by (simp add: sendToUser_def sendToClients_def getClientsByFilter_def matchesFilter_def emptyFilter_def
        demo2_eval sendToClient_def formatEvent_demoEvent controller_enqueue_def Date_now_def demoFrame_def)

lemma broadcast_unserialisable_demo2:
  "fst (broadcast \<lparr>event = ''note'', data = PUnserialisable, eid = None, retry = None\<rparr> demo2) = 0 \<and>
   clients (snd (broadcast \<lparr>event = ''note'', data = PUnserialisable, eid = None, retry = None\<rparr> demo2)) = []"
  by (simp add: broadcast_def sendToClients_def getClientsByFilter_def matchesFilter_empty demo2_eval
        sendToClient_def formatEvent_def serialise_def disconnectClient_def controller_close_def
        Map_delete_def Let_def)

lemma pingTick_demo2:
  "totalEventsSent (pingTick demo2) = 4 \<and> lastEventTime (pingTick demo2) = Some 1100 \<and>
   map (\<lambda>entry. lastPing (snd entry)) (clients (pingTick demo2)) = [1080, 1080]"
  by (simp add: pingTick_def Date_now_def demo2_eval pingClient_def sendToClient_def heartbeat_def
        formatEvent_def serialise_def controller_enqueue_def setLastPing_def cleanupStaleClients_def
        sweepClient_def demoClock_def Let_def)

theorem stale_closed_client_survives_witness:
  "map_option lastPing (map_of (clients demoLate) ''rt_1000_r0'') = Some 1020 \<and>
   map streamState (streams demoLate) = [Closed] \<and>
   clientTimeout (config demoLate) = 200 \<and>
   dateNow demoLate (dateReads demoLate) = 2000 \<and>
   map_option cid (map_of (clients (cleanupStaleClients demoLate)) ''rt_1000_r0'') = Some ''rt_1000_r0'' \<and>
   map_option cid (map_of (clients (pingTick demoLate)) ''rt_1000_r0'') = Some ''rt_1000_r0'' \<and>
   pingTick demoLate = demoLate\<lparr>dateReads := 102\<rparr>"
  using stale_closed_client_survives [OF demoLate_client demoLate_closed] pingTick_demoLate
  by (simp add: demoLate_eval demoClock_def)

theorem heartbeat_counts_witness:
  "deliverable demo2 ''rt_1000_r0'' \<and> deliverable demo2 ''rt_1040_r1'' \<and>
   totalEventsSent demo2 = 2 \<and> totalEventsSent (pingTick demo2) = 4 \<and>
   lastEventTime demo2 = Some 1070 \<and> lastEventTime (pingTick demo2) = Some 1100 \<and>
   dateNow demo2 7 = 1070 \<and> dateReads demo2 = 8 \<and>
   totalEventsSent demo1 = 1 \<and> maxClients (config demo1) = 2 \<and>
   totalEventsSent (snd (createConnection (demoOptions ''bob'') demo1)) = 2 \<and>
   lastEventTime (snd (createConnection (demoOptions ''bob'') demo1)) = Some 1070 \<and>
   stat_totalEventsSent (fst (getStats demo2)) = 2 \<and>
   stat_lastEventTime (fst (getStats demo2)) = Some 1070"
proof -
  let ?alice = "\<lparr>cid = ''rt_1000_r0'', userId = Some ''alice'', sessionId = None, controller = 0,
          connectedAt = 1010, lastPing = 1020, metadata = None\<rparr>"
  have e: "(''rt_1000_r0'', ?alice) \<in> set (clients demo2)" by (simp add: demo2_eval)
  have d: "deliverable demo2 ''rt_1000_r0''" "deliverable demo2 ''rt_1040_r1''"
    by (simp_all add: deliverable_def writable_def demo2_eval)
  then have d': "deliverable demo2 (cid (snd (''rt_1000_r0'', ?alice)))" by simp
  have ks: "map (\<lambda>entry. cid (snd entry)) (clients demo2) = [''rt_1000_r0'', ''rt_1040_r1'']"
    by (simp add: demo2_eval)
  have n: "length (filter (deliverable demo2) (map (\<lambda>entry. cid (snd entry)) (clients demo2))) = 2"
    unfolding ks using d by simp
  have clock: "\<forall>a b. a < b \<longrightarrow> dateNow demo2 a < dateNow demo2 b"
    by (simp add: demo2_eval demoClock_def)
  have before: "(7::nat) < dateReads demo2" "lastEventTime demo2 = Some (dateNow demo2 7)"
    by (simp_all add: demo2_eval demoClock_def)
  from heartbeat_counts [of "(''rt_1000_r0'', ?alice)" demo2] e d' have tick:
    "totalEventsSent (pingTick demo2) = totalEventsSent demo2 + 2 \<and>
     lastEventTime (pingTick demo2) = Some (dateNow demo2 (dateReads demo2 + 2)) \<and>
     (\<forall>i t. (\<forall>a b. a < b \<longrightarrow> dateNow demo2 a < dateNow demo2 b) \<and> i < dateReads demo2 \<and>
            lastEventTime demo2 = Some (dateNow demo2 i) \<and> lastEventTime (pingTick demo2) = Some t \<longrightarrow>
            dateNow demo2 i < t) \<and>
     stat_totalEventsSent (fst (getStats demo2)) = totalEventsSent demo2 \<and>
     stat_lastEventTime (fst (getStats demo2)) = lastEventTime demo2"
    unfolding n Let_def by blast
  with clock before have "dateNow demo2 7 < dateNow demo2 (dateReads demo2 + 2)" by blast
  moreover have room: "int (length (clients demo1)) < maxClients (config demo1)"
    by (simp add: demo1_eval)
  from heartbeat_counts [of _ demo1 "demoOptions ''bob''"] room have
    "totalEventsSent (snd (createConnection (demoOptions ''bob'') demo1)) = totalEventsSent demo1 + 1 \<and>
     lastEventTime (snd (createConnection (demoOptions ''bob'') demo1)) =
       Some (dateNow demo1 (dateReads demo1 + 3))"
    by blast
  ultimately show ?thesis using d tick by (simp add: demo2_eval demo1_eval demoClock_def)
qed

text \<open>
  C10 as stated fails: the engine has one registered client, the stream of which is
  closed; the tick delivers no ping, so \<open>totalEventsSent\<close> and \<open>lastEventTime\<close> are what
  they were.
\<close>

theorem heartbeat_counts_closed_counterexample:
  "map fst (clients demoLate) = [''rt_1000_r0''] \<and>
   totalEventsSent (pingTick demoLate) = totalEventsSent demoLate \<and>
   lastEventTime (pingTick demoLate) = lastEventTime demoLate"
  by (simp add: pingTick_demoLate) (simp add: demoLate_eval)

theorem destroy_effects_witness:
  "registryOk demo2 \<and>
   clients (destroy demo2) = [] \<and>
   timers (destroy demo2) = [] \<and>
   map streamState (streams (destroy demo2)) = [Closed, Closed] \<and>
   intervalElapsed (destroy demo2) = destroy demo2 \<and>
   broadcast demoEvent (destroy demo2) = (0, destroy demo2) \<and>
   maxClients (config demo2) = 2 \<and>
   fst (createConnection (demoOptions ''carol'') (destroy demo2)) =
     Inr \<lparr>body = 2, headers = responseHeaders\<rparr> \<and>
   length (clients (snd (createConnection (demoOptions ''carol'') (destroy demo2)))) = 1 \<and>
   intervalElapsed (snd (createConnection (demoOptions ''carol'') (destroy demo2))) =
     snd (createConnection (demoOptions ''carol'') (destroy demo2))"
  using destroy_effects [OF registryOk_demo2, of "''rt_1000_r0''" demoEvent emptyFilter "''carol''"
      "demoOptions ''carol''"] connect_after_destroy registryOk_demo2
  by (simp add: destroy_demo2) (simp add: demo2_eval)

text \<open>
  C2 as stated fails: on the destroyed engine a registration succeeds; the new client is
  in the registry and no interval timer is armed to ping it.
\<close>

theorem destroy_then_register_counterexample:
  "fst (createConnection (demoOptions ''carol'') (destroy demo2)) =
     Inr \<lparr>body = 2, headers = responseHeaders\<rparr> \<and>
   map (\<lambda>entry. userId (snd entry))
     (clients (snd (createConnection (demoOptions ''carol'') (destroy demo2)))) = [Some ''carol''] \<and>
   timers (snd (createConnection (demoOptions ''carol'') (destroy demo2))) = []"
  by (rule connect_after_destroy)

theorem broadcast_and_sendToUser_witness:
  "registryOk demo2 \<and> formatEvent demoEvent = Some demoFrame \<and>
   map (\<lambda>entry. writable demo2 (snd entry)) (clients demo2) = [True, True] \<and>
   map (\<lambda>entry. userId (snd entry)) (clients demo2) = [Some ''alice'', Some ''bob''] \<and>
   fst (broadcast demoEvent demo2) = 2 \<and>
   map chunks (streams (snd (broadcast demoEvent demo2))) =
     [[connectedFrame ''rt_1000_r0'' 1010, demoFrame], [connectedFrame ''rt_1040_r1'' 1050, demoFrame]] \<and>
   fst (sendToUser ''bob'' demoEvent demo2) = 1 \<and>
   map chunks (streams (snd (sendToUser ''bob'' demoEvent demo2))) =
     [[connectedFrame ''rt_1000_r0'' 1010], [connectedFrame ''rt_1040_r1'' 1050, demoFrame]] \<and>
   sendToUser [] demoEvent demo2 = broadcast demoEvent demo2"
proof -
  have f: "formatEvent demoEvent = Some demoFrame"
    by (simp add: formatEvent_demoEvent demoFrame_def)
  have w: "\<forall>entry \<in> set (clients demo2). writable demo2 (snd entry)"
    by (simp add: demo2_eval writable_def)
  from broadcast_and_sendToUser [of demoEvent demo2 "''bob''" demoFrame] registryOk_demo2 f w
  have "fst (broadcast demoEvent demo2) = length (clients demo2)"
    and "fst (sendToUser ''bob'' demoEvent demo2) =
      length (filter (\<lambda>entry. userId (snd entry) = Some ''bob'') (clients demo2))"
    and "sendToUser [] demoEvent demo2 = broadcast demoEvent demo2"
    by blast+
  with registryOk_demo2 f w broadcast_demo2 sendToUser_demo2 show ?thesis
    by (simp add: demo2_eval writable_def)
qed

text \<open>
  C7 as stated fails: \<^verbatim>\<open>sendToUser\<close> with the empty string as userId delivers to the
  clients of alice and of bob, whose userId is not the empty string; and a broadcast of
  an event whose payload has no JSON text returns 0 although no write failed (it removes
  both clients).
\<close>

theorem sendToUser_empty_counterexample:
  "fst (sendToUser [] demoEvent demo2) = 2 \<and>
   map (\<lambda>entry. userId (snd entry)) (clients demo2) = [Some ''alice'', Some ''bob''] \<and>
   map chunks (streams (snd (sendToUser [] demoEvent demo2))) =
     [[connectedFrame ''rt_1000_r0'' 1010, demoFrame], [connectedFrame ''rt_1040_r1'' 1050, demoFrame]] \<and>
   fst (broadcast \<lparr>event = ''note'', data = PUnserialisable, eid = None, retry = None\<rparr> demo2) = 0 \<and>
   clients (snd (broadcast \<lparr>event = ''note'', data = PUnserialisable, eid = None, retry = None\<rparr> demo2)) = []"
  using sendToUser_empty_demo2 broadcast_unserialisable_demo2 by simp

section \<open>Reachable states\<close>

text \<open>
  Every reachable state satisfies \<open>registryOk\<close>. A cancelled stream leaves its client in
  the registry with a closed stream; the states \<open>demoGone\<close> and \<open>demoLate\<close> are reachable.
\<close>

lemma registryOk_intervalElapsed: "registryOk s \<Longrightarrow> registryOk (intervalElapsed s)"
  by (simp add: intervalElapsed_def registryOk_pingTick split: option.splits)

lemma registryOk_getStats: "registryOk s \<Longrightarrow> registryOk (snd (getStats s))"
  by (simp add: getStats_def Date_now_def Let_def)

lemma reachable_registryOk: "reachable s \<Longrightarrow> registryOk s"
  by (induction rule: reachable.induct)
     (simp_all add: registryOk_new registryOk_createConnection registryOk_stream_cancel
        registryOk_sendToClient registryOk_sendToClients registryOk_disconnectClient
        registryOk_intervalElapsed registryOk_getStats registryOk_destroy Date_now_def)

lemma stream_cancel_leaves_client:
  assumes "map_of (clients s) k = Some c" and "writable s c"
    and "cancelClientId (streams s ! controller c) = k"
  shows "map_of (clients (stream_cancel (controller c) s)) k = Some c \<and>
         \<not> writable (stream_cancel (controller c) s) c"
proof -
  let ?s1 = "s\<lparr>streams := (streams s)[controller c := (streams s ! controller c)\<lparr>streamState := Closed\<rparr>]\<rparr>"
  from assms(2) have v: "controller c < length (streams s)" "streamState (streams s ! controller c) = Readable"
    by (simp_all add: writable_def)
  have c1: "map_of (clients ?s1) k = Some c" using assms(1) by simp
  have w1: "\<not> writable ?s1 c" using v by (simp add: writable_def)
  from disconnectClient_closed [OF c1 w1] v assms(3) have "stream_cancel (controller c) s = ?s1"
    by (simp add: stream_cancel_def)
  with c1 w1 show ?thesis by simp
qed

lemma reachable_demoGone: "reachable demoGone"
  unfolding demoGone_def demo1_def demo0_def
  by (intro reachable.cancelled reachable.connected reachable.constructed)

lemma reachable_later: "reachable s \<Longrightarrow> reachable (s\<lparr>dateReads := dateReads s + n\<rparr>)"
proof (induction n)
  case 0
  then show ?case by simp
next
  case (Suc n)
  from reachable.clockRead [OF Suc.IH [OF Suc.prems]] show ?case by (simp add: Date_now_def)
qed

lemma reachable_demoLate: "reachable demoLate"
proof -
  have "demoLate = demoGone\<lparr>dateReads := dateReads demoGone + 96\<rparr>"
    by (simp add: demoLate_def demoGone_eval)
  with reachable_later [OF reachable_demoGone, of 96] show ?thesis by simp
qed

section \<open>The sweep on open streams\<close>

text \<open>
  Where the stream of the client is still open the sweep does what is expected of it: it
  keeps a client whose \<open>lastPing\<close> is within \<open>clientTimeout\<close> of the sweep's time and it
  removes a client whose \<open>lastPing\<close> is older.
\<close>

lemma sweepClient_config [simp]: "config (sweepClient now entry s) = config s"
  by (simp add: sweepClient_def)

lemma fold_sweepClient_keeps_fresh:
  assumes "map_of (clients s) k = Some c"
    and "\<forall>entry \<in> set es. fst entry = k \<longrightarrow> now - lastPing (snd entry) \<le> clientTimeout (config s)"
  shows "map_of (clients (fold (sweepClient now) es s)) k = Some c"
  using assms
proof (induction es arbitrary: s)
  case Nil
  then show ?case by simp
next
  case (Cons entry es)
  have "map_of (clients (sweepClient now entry s)) k = Some c"
  proof (cases "fst entry = k")
    case True
    with Cons.prems have "now - lastPing (snd entry) \<le> clientTimeout (config s)" by simp
    with Cons.prems(1) show ?thesis by (simp add: sweepClient_def)
  next
    case False
    then have "k \<noteq> fst entry" by auto
    with Cons.prems(1) show ?thesis by (simp add: sweepClient_def disconnectClient_other)
  qed
  moreover from Cons.prems(2)
  have "\<forall>entry' \<in> set es. fst entry' = k \<longrightarrow>
      now - lastPing (snd entry') \<le> clientTimeout (config (sweepClient now entry s))"
    by simp
  ultimately show ?case using Cons.IH by simp
qed

lemma sweep_keeps_fresh:
  assumes "registryOk s" and "(k, c) \<in> set (clients s)"
    and "dateNow s (dateReads s) - lastPing c \<le> clientTimeout (config s)"
  shows "map_of (clients (cleanupStaleClients s)) k = Some c"
proof -
  let ?s1 = "s\<lparr>dateReads := Suc (dateReads s)\<rparr>"
  from assms(1) have d: "distinct (map fst (clients s))" by (simp add: registryOk_def)
  with assms(2) have m: "map_of (clients ?s1) k = Some c" by simp
  have "\<forall>entry \<in> set (clients s). fst entry = k \<longrightarrow>
      dateNow s (dateReads s) - lastPing (snd entry) \<le> clientTimeout (config ?s1)"
  proof (intro ballI impI)
    fix entry
    assume "entry \<in> set (clients s)" "fst entry = k"
    with d have "map_of (clients s) k = Some (snd entry)" by auto
    with m have "snd entry = c" by simp
    with assms(3) show "dateNow s (dateReads s) - lastPing (snd entry) \<le> clientTimeout (config ?s1)"
      by simp
  qed
  from fold_sweepClient_keeps_fresh [OF m this] show ?thesis
    by (simp add: cleanupStaleClients_def Date_now_def)
qed

lemma disconnectClient_gone_stays:
  "map_of (clients s) k = None \<Longrightarrow> map_of (clients (snd (disconnectClient j s))) k = None"
  by (cases j s rule: disconnectClient_cases) (simp_all add: map_of_Map_delete)

lemma fold_sweepClient_gone_stays:
  "map_of (clients s) k = None \<Longrightarrow> map_of (clients (fold (sweepClient now) es s)) k = None"
  by (induction es arbitrary: s) (simp_all add: sweepClient_def disconnectClient_gone_stays)

lemma disconnectClient_other_writable:
  assumes "registryOk s" and "map_of (clients s) k = Some c" and "writable s c" and "j \<noteq> k"
  shows "writable (snd (disconnectClient j s)) c"
proof (cases j s rule: disconnectClient_cases)
  case same
  with assms show ?thesis by simp
next
  case (removed d)
  from removed(1) assms(2) have "(j, d) \<in> set (clients s)" "(k, c) \<in> set (clients s)"
    by (simp_all add: map_of_SomeD)
  with registryOk_controller_inj [OF assms(1), of "(j, d)" "(k, c)"] assms(4)
  have "controller d \<noteq> controller c" by auto
  with assms(3) removed show ?thesis by (simp add: writable_def)
qed

lemma fold_sweepClient_evicts:
  assumes "registryOk s" and "distinct (map fst es)" and "(k, c) \<in> set es"
    and "map_of (clients s) k = Some c" and "writable s c"
    and "clientTimeout (config s) < now - lastPing c"
  shows "map_of (clients (fold (sweepClient now) es s)) k = None"
  using assms
proof (induction es arbitrary: s)
  case Nil
  then show ?case by simp
next
  case (Cons entry es)
  show ?case
  proof (cases "entry = (k, c)")
    case True
    from disconnectClient_open [OF Cons.prems(4,5)]
    have "map_of (clients (snd (disconnectClient k s))) k = None"
      by (simp add: map_of_Map_delete)
    with True Cons.prems(6) have "map_of (clients (sweepClient now entry s)) k = None"
      by (simp add: sweepClient_def)
    then show ?thesis by (simp add: fold_sweepClient_gone_stays)
  next
    case False
    with Cons.prems have in_es: "(k, c) \<in> set es" and d: "distinct (map fst es)"
      and ne: "fst entry \<noteq> k"
      by (auto simp: image_iff)
    let ?s1 = "sweepClient now entry s"
    have ok: "registryOk ?s1"
      using Cons.prems(1) by (simp add: sweepClient_def registryOk_disconnectClient)
    have m: "map_of (clients ?s1) k = Some c"
      using Cons.prems(4) ne by (simp add: sweepClient_def disconnectClient_other)
    have w: "writable ?s1 c"
      using Cons.prems(1,4,5) ne by (simp add: sweepClient_def disconnectClient_other_writable)
    have t: "clientTimeout (config ?s1) < now - lastPing c" using Cons.prems(6) by simp
    from Cons.IH [OF ok d in_es m w t] show ?thesis by simp
  qed
qed

lemma sweep_evicts_open_stale:
  assumes "registryOk s" and "(k, c) \<in> set (clients s)" and "writable s c"
    and "clientTimeout (config s) < dateNow s (dateReads s) - lastPing c"
  shows "map_of (clients (cleanupStaleClients s)) k = None"
proof -
  let ?s1 = "s\<lparr>dateReads := Suc (dateReads s)\<rparr>"
  from assms(1) have d: "distinct (map fst (clients ?s1))" by (simp add: registryOk_def)
  from assms(1) have ok: "registryOk ?s1" by simp
  from d assms(2) have m: "map_of (clients ?s1) k = Some c" by simp
  from assms(3) have w: "writable ?s1 c" by (simp add: writable_def)
  from assms(2) have i: "(k, c) \<in> set (clients ?s1)" by simp
  from assms(4) have t: "clientTimeout (config ?s1) < dateNow s (dateReads s) - lastPing c" by simp
  from fold_sweepClient_evicts [OF ok d i m w t] show ?thesis
    by (simp add: cleanupStaleClients_def Date_now_def)
qed

end
